theory Spec2Isabelle
  imports Complex_Main
begin

section \<open>Errors\<close>

text \<open>
  Every \<^verbatim>\<open>throw std::runtime_error(...)\<close> of \<^verbatim>\<open>lisp.cpp\<close> is one constructor, named after
  its message. \<open>StodInvalidArgument\<close> is the \<^verbatim>\<open>std::invalid_argument\<close> thrown by
  \<^verbatim>\<open>std::stod\<close> when no conversion can be performed. \<open>TokenIndexOutOfRange\<close> stands for
  the unchecked read \<^verbatim>\<open>tokens[pos]\<close> with \<open>pos\<close> beyond the end of the vector, which is
  undefined behaviour in the source and a failure in this model.
\<close>

datatype error =
    UnexpectedCharacter char
  | MissingClosingParenthesis
  | UnexpectedToken
  | StodInvalidArgument
  | TokenIndexOutOfRange
  | UndefinedSymbol string
  | InvalidDefineSyntax
  | InvalidLambdaSyntax
  | LambdaParametersMustBeSymbols
  | InvalidIfSyntax
  | FirstElementIsNotAFunction
  | FirstElementMustBeASymbol
  | IncorrectNumberOfArguments
  | InvalidExpression
  | PlusArgumentsMustBeNumbers
  | MinusRequiresAtLeastOneArgument
  | MinusArgumentsMustBeNumbers

section \<open>Tokenization\<close>

datatype TokenType = PAREN_OPEN | PAREN_CLOSE | NUMBER | SYMBOL

record Token =
  type :: TokenType
  "value" :: string

text \<open>The character classes of \<^verbatim>\<open><cctype>\<close> in the C locale.\<close>

definition isspace :: "char \<Rightarrow> bool" where
  "isspace c = (c \<in> set [CHR '' '', CHR 0x09, CHR 0x0A, CHR 0x0B, CHR 0x0C, CHR 0x0D])"

definition isdigit :: "char \<Rightarrow> bool" where
  "isdigit c = (c \<in> set ''0123456789'')"

definition isalpha :: "char \<Rightarrow> bool" where
  "isalpha c = (c \<in> set ''abcdefghijklmnopqrstuvwxyzABCDEFGHIJKLMNOPQRSTUVWXYZ'')"

definition isalnum :: "char \<Rightarrow> bool" where
  "isalnum c = (isalpha c \<or> isdigit c)"

text \<open>
  \<^verbatim>\<open>strchr("+-*/%<>=!", c)\<close> as a truth value. The terminating null character counts as
  part of the searched string, so the call is non-null for \<open>c = 0\<close> as well.
\<close>

definition is_operator_char :: "char \<Rightarrow> bool" where
  "is_operator_char c = (c \<in> set ''+-*/%<>=!'' \<or> c = CHR 0x00)"

text \<open>
  \<^verbatim>\<open>code[j]\<close> on a \<^verbatim>\<open>std::string\<close>: for \<open>j = length code\<close> the result is the null
  character. The tokenizer never reads further than that.
\<close>

definition char_at :: "string \<Rightarrow> nat \<Rightarrow> char" where
  "char_at code j = (if j < length code then code ! j else CHR 0x00)"

text \<open>\<^verbatim>\<open>code.substr(start, n)\<close> for \<open>start \<le> length code\<close>.\<close>

definition substr :: "string \<Rightarrow> nat \<Rightarrow> nat \<Rightarrow> string" where
  "substr code start n = take n (drop start code)"

text \<open>
  The two inner loops
  \<^verbatim>\<open>while (i < code.length() && (isdigit(code[i]) || code[i] == '.')) i++;\<close> and
  \<^verbatim>\<open>while (i < code.length() && (isalnum(code[i]) || strchr("+-*/%<>=!", code[i]))) i++;\<close>
  return the final value of \<open>i\<close>.
\<close>

function scan_number :: "string \<Rightarrow> nat \<Rightarrow> nat" where
  "scan_number code i =
     (if i < length code \<and> (isdigit (code ! i) \<or> code ! i = CHR ''.'')
      then scan_number code (i + 1) else i)"
  by pat_completeness auto
termination
  by (relation "measure (\<lambda>(code, i). length code - i)") auto

function scan_symbol :: "string \<Rightarrow> nat \<Rightarrow> nat" where
  "scan_symbol code i =
     (if i < length code \<and> (isalnum (code ! i) \<or> is_operator_char (code ! i))
      then scan_symbol code (i + 1) else i)"
  by pat_completeness auto
termination
  by (relation "measure (\<lambda>(code, i). length code - i)") auto

declare scan_number.simps [simp del] scan_symbol.simps [simp del]

text \<open>
  The outer loop of \<^verbatim>\<open>tokenize\<close>, with the loop variables \<open>i\<close> and \<open>tokens\<close> as
  arguments. The loop need not terminate, so it is a partial function: \<open>None\<close> is a run
  that never returns, \<open>Some (Inl e)\<close> a thrown error, \<open>Some (Inr ts)\<close> the returned vector.
\<close>

partial_function (option) tokenize_loop ::
  "string \<Rightarrow> nat \<Rightarrow> Token list \<Rightarrow> (error + Token list) option" where
  "tokenize_loop code i tokens =
     (if i < length code then
        (let c = code ! i in
         if isspace c then tokenize_loop code (i + 1) tokens
         else if c = CHR ''('' then
           tokenize_loop code (i + 1) (tokens @ [\<lparr>type = PAREN_OPEN, value = ''(''\<rparr>])
         else if c = CHR '')'' then
           tokenize_loop code (i + 1) (tokens @ [\<lparr>type = PAREN_CLOSE, value = '')''\<rparr>])
         else if isdigit c \<or> (c = CHR ''-'' \<and> isdigit (char_at code (i + 1))) then
           (let start = i; i' = scan_number code i in
            tokenize_loop code i'
              (tokens @ [\<lparr>type = NUMBER, value = substr code start (i' - start)\<rparr>]))
         else if isalpha c \<or> is_operator_char c then
           (let start = i; i' = scan_symbol code i in
            tokenize_loop code i'
              (tokens @ [\<lparr>type = SYMBOL, value = substr code start (i' - start)\<rparr>]))
         else Some (Inl (UnexpectedCharacter c)))
      else Some (Inr tokens))"

definition tokenize :: "string \<Rightarrow> (error + Token list) option" where
  "tokenize code = tokenize_loop code 0 []"

declare tokenize_loop.simps [code]

section \<open>Terms, procedures and environments\<close>

text \<open>
  \<^verbatim>\<open>Expression\<close> holds a \<^verbatim>\<open>std::variant<double, std::string, std::vector<ExprPtr>,
  std::shared_ptr<Function>>\<close>. Expressions and functions are never modified after
  construction, so the shared pointers to them are modelled by the values themselves.
  A \<^verbatim>\<open>double\<close> is modelled by a real number: rounding, infinities and NaN are outside
  the model. An \<^verbatim>\<open>Environment\<close> is mutable and shared, so a
  \<^verbatim>\<open>std::shared_ptr<Environment>\<close> is an address into a store of environments.

  \<^verbatim>\<open>Function\<close> has two constructors: the one for built-ins fills \<^verbatim>\<open>builtin\<close> only, the
  one for user-defined functions fills \<^verbatim>\<open>params\<close>, \<^verbatim>\<open>body\<close> and \<^verbatim>\<open>env\<close> and leaves
  \<^verbatim>\<open>builtin\<close> empty. The two \<^verbatim>\<open>BuiltinFunc\<close> closures that \<^verbatim>\<open>addBuiltins\<close> creates
  are named \<open>Plus\<close> and \<open>Minus\<close>.
\<close>

type_synonym addr = nat

datatype BuiltinFunc = Plus | Minus

datatype Expression =
    Number real
  | Symbol string
  | List "Expression list"
  | Func Function
and Function =
    Builtin BuiltinFunc
  | UserDefined "string list" Expression addr

record Environment =
  vars :: "string \<rightharpoonup> Expression"
  outer :: "addr option"

type_synonym store = "Environment list"

fun isSymbol :: "Expression \<Rightarrow> bool" where
  "isSymbol (Symbol s) = True"
| "isSymbol e = False"

fun isNumber :: "Expression \<Rightarrow> bool" where
  "isNumber (Number d) = True"
| "isNumber e = False"

fun isList :: "Expression \<Rightarrow> bool" where
  "isList (List l) = True"
| "isList e = False"

fun isFunction :: "Expression \<Rightarrow> bool" where
  "isFunction (Func f) = True"
| "isFunction e = False"

text \<open>
  \<^verbatim>\<open>std::get<std::string>\<close>, \<^verbatim>\<open>std::get<double>\<close> and
  \<^verbatim>\<open>std::get<std::vector<ExprPtr>>\<close>. The source calls each only after the matching
  \<^verbatim>\<open>holds_alternative\<close> test; the other equations are never reached.
\<close>

fun get_string :: "Expression \<Rightarrow> string" where
  "get_string (Symbol s) = s"
| "get_string e = []"

fun get_double :: "Expression \<Rightarrow> real" where
  "get_double (Number d) = d"
| "get_double e = 0"

fun get_list :: "Expression \<Rightarrow> Expression list" where
  "get_list (List l) = l"
| "get_list e = []"

section \<open>Parsing\<close>

text \<open>
  \<^verbatim>\<open>std::stod\<close> on the texts the tokenizer can put into a \<open>NUMBER\<close> token, which
  consist of digits and dots. As \<^verbatim>\<open>strtod\<close> does, it converts the longest prefix that
  is a decimal literal (digits, optionally a dot and more digits, at least one digit in
  all) and ignores what follows; it throws \<^verbatim>\<open>std::invalid_argument\<close> when there is no
  such prefix. Signs, exponents, hexadecimal literals and the range check of
  \<^verbatim>\<open>std::stod\<close> are not modelled.
\<close>

definition digit_value :: "char \<Rightarrow> nat" where
  "digit_value c = of_char c - 48"

definition digits_value :: "string \<Rightarrow> nat" where
  "digits_value ds = foldl (\<lambda>a c. 10 * a + digit_value c) 0 ds"

definition stod :: "string \<Rightarrow> error + real" where
  "stod s =
     (let ip = takeWhile isdigit s;
          r = dropWhile isdigit s;
          fp = (case r of [] \<Rightarrow> [] | c # r' \<Rightarrow> if c = CHR ''.'' then takeWhile isdigit r' else [])
      in if ip = [] \<and> fp = [] then Inl StodInvalidArgument
         else Inr (real (digits_value ip) + real (digits_value fp) / 10 ^ length fp))"

text \<open>
  \<^verbatim>\<open>parseExpression\<close> and \<^verbatim>\<open>parseList\<close>. The cursor \<open>pos\<close> is passed by reference in
  the source; here its final value is returned with the expression. \<open>parseList_loop\<close> is
  the \<^verbatim>\<open>while\<close> loop of \<^verbatim>\<open>parseList\<close> together with the code after it, with the
  vector \<open>list\<close> built so far as an argument.
\<close>

function (domintros)
  parseExpression :: "Token list \<Rightarrow> nat \<Rightarrow> error + Expression \<times> nat" and
  parseList_loop :: "Token list \<Rightarrow> nat \<Rightarrow> Expression list \<Rightarrow> error + Expression \<times> nat"
where
  "parseExpression tokens pos =
     (if length tokens \<le> pos then Inl TokenIndexOutOfRange
      else
        (let token = tokens ! pos in
         if type token = NUMBER then
           (case stod (value token) of
              Inl e \<Rightarrow> Inl e
            | Inr d \<Rightarrow> Inr (Number d, pos + 1))
         else if type token = SYMBOL then Inr (Symbol (value token), pos + 1)
         else if type token = PAREN_OPEN then parseList_loop tokens (pos + 1) []
         else Inl UnexpectedToken))"
| "parseList_loop tokens pos list =
     (if pos < length tokens \<and> type (tokens ! pos) \<noteq> PAREN_CLOSE then
        (case parseExpression tokens pos of
           Inl e \<Rightarrow> Inl e
         | Inr (x, pos') \<Rightarrow> parseList_loop tokens pos' (list @ [x]))
      else if pos = length tokens \<or> type (tokens ! pos) \<noteq> PAREN_CLOSE then
        Inl MissingClosingParenthesis
      else Inr (List list, pos + 1))"
  by pat_completeness auto


lemma parse_advances:
  "parseExpression_parseList_loop_dom (Inl (tokens, pos)) \<Longrightarrow>
     parseExpression tokens pos = Inr (x, pos') \<Longrightarrow> pos < pos'"
  "parseExpression_parseList_loop_dom (Inr (tokens, pos, list)) \<Longrightarrow>
     parseList_loop tokens pos list = Inr (x, pos') \<Longrightarrow> pos < pos'"
proof (induction tokens pos and tokens pos list arbitrary: x pos' and x pos'
        rule: parseExpression_parseList_loop.pinduct)
  case (1 tokens pos)
  note eq = 1(3)[unfolded parseExpression.psimps[OF 1(1)]]
  show ?case
  proof (cases "type (tokens ! pos) = PAREN_OPEN")
    case True
    with eq have in_range: "\<not> length tokens \<le> pos"
      and loop: "parseList_loop tokens (pos + 1) [] = Inr (x, pos')"
      by (simp_all add: Let_def split: if_splits)
    from 1(2)[OF in_range refl _ _ True loop] True show ?thesis by simp
  next
    case False
    with eq show ?thesis
      by (auto simp: Let_def split: if_splits sum.splits)
  qed
next
  case (2 tokens pos list)
  note eq = 2(4)[unfolded parseList_loop.psimps[OF 2(1)]]
  show ?case
  proof (cases "pos < length tokens \<and> type (tokens ! pos) \<noteq> PAREN_CLOSE")
    case True
    with eq obtain y p where
      first: "parseExpression tokens pos = Inr (y, p)" and
      rest: "parseList_loop tokens p (list @ [y]) = Inr (x, pos')"
      by (auto split: sum.splits)
    from 2(2)[OF True first] have "pos < p" .
    moreover from 2(3)[OF True first refl rest] have "p < pos'" .
    ultimately show ?thesis by simp
  next
    case False
    with eq show ?thesis by (auto split: if_splits)
  qed
qed

termination parseExpression
proof (relation "measure (\<lambda>a. case a of
          Inl (tokens, pos) \<Rightarrow> 2 * (length tokens - pos)
        | Inr (tokens, pos, list) \<Rightarrow> 2 * (length tokens - pos) + 1)", goal_cases)
  case 1
  show ?case by simp
next
  case (2 tokens pos x)
  then show ?case by simp
next
  case (3 tokens pos list)
  then show ?case by simp
next
  case (4 tokens pos list b x y)
  then have "pos < y" using parse_advances(1)[of tokens pos x y] by simp
  with 4 show ?case by auto
qed

declare parseExpression.simps [simp del] parseList_loop.simps [simp del]

text \<open>
  \<^verbatim>\<open>parse\<close>: tokenize, then read one expression from position 0. Tokens after that
  expression are ignored.
\<close>

definition parse :: "string \<Rightarrow> (error + Expression) option" where
  "parse code =
     (case tokenize code of
        None \<Rightarrow> None
      | Some (Inl e) \<Rightarrow> Some (Inl e)
      | Some (Inr tokens) \<Rightarrow>
          (case parseExpression tokens 0 of
             Inl e \<Rightarrow> Some (Inl e)
           | Inr (x, pos) \<Rightarrow> Some (Inr x)))"

section \<open>Environments\<close>

text \<open>
  \<^verbatim>\<open>Environment::find\<close>, with the found value returned instead of written through the
  reference parameter. An address is the index of its environment in the store. The two
  guards \<open>length st \<le> a\<close> and \<open>a \<le> a'\<close> make the walk along \<^verbatim>\<open>outer\<close> total on an
  arbitrary store: a shared pointer is never dangling, and an environment's \<^verbatim>\<open>outer\<close>
  is fixed at construction to an environment that exists already, so in the stores the
  program builds neither guard fires (lemma \<open>reachable_store_lookup\<close> below).
\<close>

function Environment_find :: "store \<Rightarrow> addr \<Rightarrow> string \<Rightarrow> Expression option" where
  "Environment_find st a var =
     (if length st \<le> a then None
      else
        (case vars (st ! a) var of
           Some result \<Rightarrow> Some result
         | None \<Rightarrow>
             (case outer (st ! a) of
                None \<Rightarrow> None
              | Some a' \<Rightarrow> if a \<le> a' then None else Environment_find st a' var)))"
  by pat_completeness auto
termination
  by (relation "measure (\<lambda>(st, a, var). a)") auto

declare Environment_find.simps [simp del]

text \<open>\<^verbatim>\<open>Environment::set\<close>: \<^verbatim>\<open>vars[var] = value\<close> in the environment at address \<open>a\<close>.\<close>

definition Environment_set :: "store \<Rightarrow> addr \<Rightarrow> string \<Rightarrow> Expression \<Rightarrow> store" where
  "Environment_set st a var val = st[a := (st ! a)\<lparr>vars := (vars (st ! a))(var \<mapsto> val)\<rparr>]"

text \<open>
  \<^verbatim>\<open>std::make_shared<Environment>(outer)\<close>: the new environment gets the next free
  address.
\<close>

definition new_Environment :: "store \<Rightarrow> addr option \<Rightarrow> addr \<times> store" where
  "new_Environment st out = (length st, st @ [\<lparr>vars = Map.empty, outer = out\<rparr>])"

section \<open>Built-in functions\<close>

text \<open>The bodies of the two lambdas registered by \<^verbatim>\<open>addBuiltins\<close>.\<close>

fun plus_loop :: "Expression list \<Rightarrow> real \<Rightarrow> error + Expression" where
  "plus_loop [] acc = Inr (Number acc)"
| "plus_loop (arg # args) acc =
     (if \<not> isNumber arg then Inl PlusArgumentsMustBeNumbers
      else plus_loop args (acc + get_double arg))"

definition builtin_plus :: "Expression list \<Rightarrow> error + Expression" where
  "builtin_plus args = plus_loop args 0"

fun minus_loop :: "Expression list \<Rightarrow> real \<Rightarrow> error + Expression" where
  "minus_loop [] result = Inr (Number result)"
| "minus_loop (arg # args) result =
     (if \<not> isNumber arg then Inl MinusArgumentsMustBeNumbers
      else minus_loop args (result - get_double arg))"

definition builtin_minus :: "Expression list \<Rightarrow> error + Expression" where
  "builtin_minus args =
     (if args = [] then Inl MinusRequiresAtLeastOneArgument
      else if \<not> isNumber (args ! 0) then Inl MinusArgumentsMustBeNumbers
      else
        (let result = get_double (args ! 0) in
         if length args = 1 then Inr (Number (- result))
         else minus_loop (drop 1 args) result))"

fun call_builtin :: "BuiltinFunc \<Rightarrow> Expression list \<Rightarrow> error + Expression" where
  "call_builtin Plus args = builtin_plus args"
| "call_builtin Minus args = builtin_minus args"

definition addBuiltins :: "store \<Rightarrow> addr \<Rightarrow> store" where
  "addBuiltins st env =
     Environment_set (Environment_set st env ''+'' (Func (Builtin Plus)))
       env ''-'' (Func (Builtin Minus))"

section \<open>Evaluation\<close>

text \<open>
  The loop over the parameter list of a \<^verbatim>\<open>lambda\<close> form, and the loop that binds the
  parameters of a user-defined function in the new environment (the source runs it only
  when \<open>args\<close> and \<open>params\<close> have the same length).
\<close>

fun collect_params :: "Expression list \<Rightarrow> string list \<Rightarrow> error + string list" where
  "collect_params [] params = Inr params"
| "collect_params (param # rest) params =
     (if \<not> isSymbol param then Inl LambdaParametersMustBeSymbols
      else collect_params rest (params @ [get_string param]))"

fun bind_params :: "store \<Rightarrow> addr \<Rightarrow> string list \<Rightarrow> Expression list \<Rightarrow> store" where
  "bind_params st a (p # ps) (x # xs) = bind_params (Environment_set st a p x) a ps xs"
| "bind_params st a ps xs = st"

text \<open>
  \<^verbatim>\<open>eval\<close>. The store is threaded through every call, and it is returned with an error
  as well as with a value: a thrown exception undoes no write. The recursion of the
  source is not bounded, so the first argument bounds the depth of nested calls of
  \<^verbatim>\<open>eval\<close>: \<open>None\<close> means that this depth was not enough. \<open>eval_args\<close> is the loop that
  evaluates the arguments of an application from left to right.
\<close>

fun eval :: "nat \<Rightarrow> Expression \<Rightarrow> addr \<Rightarrow> store \<Rightarrow> ((error + Expression) \<times> store) option"
and eval_args ::
  "nat \<Rightarrow> Expression list \<Rightarrow> addr \<Rightarrow> store \<Rightarrow> Expression list \<Rightarrow>
     ((error + Expression list) \<times> store) option"
where
  "eval 0 expr env st = None"
| "eval (Suc n) (Symbol s) env st =
     (case Environment_find st env s of
        Some result \<Rightarrow> Some (Inr result, st)
      | None \<Rightarrow> Some (Inl (UndefinedSymbol s), st))"
| "eval (Suc n) (Number d) env st = Some (Inr (Number d), st)"
| "eval (Suc n) (List list) env st =
     (if list = [] then Some (Inr (List list), st)
      else
        (let first = list ! 0 in
         if isSymbol first then
           (let sym = get_string first in
            if sym = ''define'' then
              (if length list \<noteq> 3 \<or> \<not> isSymbol (list ! 1) then Some (Inl InvalidDefineSyntax, st)
               else
                 (let varName = get_string (list ! 1) in
                  case eval n (list ! 2) env st of
                    None \<Rightarrow> None
                  | Some (Inl e, st') \<Rightarrow> Some (Inl e, st')
                  | Some (Inr val, st') \<Rightarrow> Some (Inr val, Environment_set st' env varName val)))
            else if sym = ''lambda'' then
              (if length list \<noteq> 3 \<or> \<not> isList (list ! 1) then Some (Inl InvalidLambdaSyntax, st)
               else
                 (case collect_params (get_list (list ! 1)) [] of
                    Inl e \<Rightarrow> Some (Inl e, st)
                  | Inr params \<Rightarrow> Some (Inr (Func (UserDefined params (list ! 2) env)), st)))
            else if sym = ''if'' then
              (if length list \<noteq> 4 then Some (Inl InvalidIfSyntax, st)
               else
                 (case eval n (list ! 1) env st of
                    None \<Rightarrow> None
                  | Some (Inl e, st') \<Rightarrow> Some (Inl e, st')
                  | Some (Inr cond, st') \<Rightarrow>
                      if isNumber cond \<and> get_double cond \<noteq> 0 then eval n (list ! 2) env st'
                      else eval n (list ! 3) env st'))
            else
              (case eval n first env st of
                 None \<Rightarrow> None
               | Some (Inl e, st') \<Rightarrow> Some (Inl e, st')
               | Some (Inr funcExpr, st') \<Rightarrow>
                   (case funcExpr of
                      Func func \<Rightarrow>
                        (case eval_args n (drop 1 list) env st' [] of
                           None \<Rightarrow> None
                         | Some (Inl e, st'') \<Rightarrow> Some (Inl e, st'')
                         | Some (Inr args, st'') \<Rightarrow>
                             (case func of
                                Builtin builtin \<Rightarrow> Some (call_builtin builtin args, st'')
                              | UserDefined ps b fenv \<Rightarrow>
                                  if length args \<noteq> length ps then
                                    Some (Inl IncorrectNumberOfArguments, st'')
                                  else
                                    (case new_Environment st'' (Some fenv) of
                                       (localEnv, st3) \<Rightarrow>
                                         eval n b localEnv (bind_params st3 localEnv ps args))))
                    | _ \<Rightarrow> Some (Inl FirstElementIsNotAFunction, st'))))
         else Some (Inl FirstElementMustBeASymbol, st)))"
| "eval (Suc n) (Func f) env st = Some (Inl InvalidExpression, st)"
| "eval_args n [] env st args = Some (Inr args, st)"
| "eval_args n (x # xs) env st args =
     (case eval n x env st of
        None \<Rightarrow> None
      | Some (Inl e, st') \<Rightarrow> Some (Inl e, st')
      | Some (Inr v, st') \<Rightarrow> eval_args n xs env st' (args @ [v]))"

section \<open>The read-eval loop\<close>

text \<open>
  \<^verbatim>\<open>main\<close> creates the global environment, registers the built-ins, and then handles
  one line per cycle: parse it, evaluate it in the global environment, and catch any
  exception. \<open>main_cycle\<close> is the \<^verbatim>\<open>try\<close> block of one cycle without the printing.
\<close>

definition globalEnv :: addr where
  "globalEnv = 0"

definition initial_store :: store where
  "initial_store = addBuiltins [\<lparr>vars = Map.empty, outer = None\<rparr>] globalEnv"

definition main_cycle :: "nat \<Rightarrow> string \<Rightarrow> store \<Rightarrow> ((error + Expression) \<times> store) option" where
  "main_cycle n line st =
     (case parse line of
        None \<Rightarrow> None
      | Some (Inl e) \<Rightarrow> Some (Inl e, st)
      | Some (Inr expr) \<Rightarrow> eval n expr globalEnv st)"

text \<open>
  The \<^verbatim>\<open>while\<close> loop of \<^verbatim>\<open>main\<close> on the lines it reads, in order: the store left by
  one cycle is the store of the next, whether the cycle ended in a value or in an error.
  The result is what each cycle produced, and the final store.
\<close>

fun main_loop ::
  "nat \<Rightarrow> string list \<Rightarrow> store \<Rightarrow> ((error + Expression) list \<times> store) option" where
  "main_loop n [] st = Some ([], st)"
| "main_loop n (line # lines) st =
     (case main_cycle n line st of
        None \<Rightarrow> None
      | Some (r, st') \<Rightarrow>
          (case main_loop n lines st' of
             None \<Rightarrow> None
           | Some (rs, st'') \<Rightarrow> Some (r # rs, st'')))"

section \<open>Properties of the tokenizer\<close>

text \<open>
  When the outer loop stands on a \<open>-\<close> that is followed by a digit, the number branch is
  taken, but its inner loop accepts digits and dots only: it stops at once, an empty
  \<open>NUMBER\<close> token is pushed, and \<open>i\<close> has not moved. The loop is then in the same
  position again with a longer vector, and never returns.
\<close>

lemma scan_number_at_minus:
  "i < length code \<Longrightarrow> code ! i = CHR ''-'' \<Longrightarrow> scan_number code i = i"
  by (subst scan_number.simps) (simp add: isdigit_def)

lemma minus_digit_never_returns:
  assumes "i < length code" and "code ! i = CHR ''-''" and "isdigit (char_at code (i + 1))"
  shows "tokenize_loop code i tokens = None"
proof (rule ccontr)
  assume "tokenize_loop code i tokens \<noteq> None"
  then obtain y where returns: "tokenize_loop code i tokens = Some y"
    by auto
  have stuck: "scan_number code i = i"
    using assms(1,2) by (rule scan_number_at_minus)
  have first_tests: "\<not> isspace CHR ''-''" "CHR ''-'' \<noteq> CHR ''(''" "CHR ''-'' \<noteq> CHR '')''"
    by (simp_all add: isspace_def)
  have "\<not> (code = code \<and> i = i)"
  proof (rule tokenize_loop.raw_induct
      [where P = "\<lambda>c j ts y. \<not> (c = code \<and> j = i)", OF _ returns])
    fix f c j ts y
    assume IH: "\<And>c j ts y. f c j ts = Some y \<Longrightarrow> \<not> (c = code \<and> j = i)"
      and body: "(if j < length c then
        (let ch = c ! j in
         if isspace ch then f c (j + 1) ts
         else if ch = CHR ''('' then
           f c (j + 1) (ts @ [\<lparr>type = PAREN_OPEN, value = ''(''\<rparr>])
         else if ch = CHR '')'' then
           f c (j + 1) (ts @ [\<lparr>type = PAREN_CLOSE, value = '')''\<rparr>])
         else if isdigit ch \<or> (ch = CHR ''-'' \<and> isdigit (char_at c (j + 1))) then
           (let start = j; i' = scan_number c j in
            f c i' (ts @ [\<lparr>type = NUMBER, value = substr c start (i' - start)\<rparr>]))
         else if isalpha ch \<or> is_operator_char ch then
           (let start = j; i' = scan_symbol c j in
            f c i' (ts @ [\<lparr>type = SYMBOL, value = substr c start (i' - start)\<rparr>]))
         else Some (Inl (UnexpectedCharacter ch)))
      else Some (Inr ts)) = Some y"
    show "\<not> (c = code \<and> j = i)"
    proof
      assume same: "c = code \<and> j = i"
      with body assms stuck first_tests
      have "f code i (ts @ [\<lparr>type = NUMBER, value = substr code i (i - i)\<rparr>]) = Some y"
        by (simp add: Let_def)
      from IH[OF this] show False by simp
    qed
  qed
  then show False by simp
qed

text \<open>
  C2. The claim: the tokenizer terminates on every line, and a \<open>-\<close> followed by a digit
  starts one \<open>NUMBER\<close> token that covers the sign and the digits. The source does not do
  this: on the line \<open>-5\<close> the call never returns, and neither does it on the line
  \<open>(if -1 1 2)\<close>.
\<close>

theorem tokenize_negative_literal_never_returns:
  "tokenize ''-5'' = None \<and> tokenize ''(if -1 1 2)'' = None"
proof
  show "tokenize ''-5'' = None"
    unfolding tokenize_def
    by (rule minus_digit_never_returns) (simp_all add: char_at_def isdigit_def)
next
  have stuck: "tokenize_loop ''(if -1 1 2)'' (Suc (Suc (Suc (Suc 0)))) ts = None" for ts
    by (rule minus_digit_never_returns) (simp_all add: char_at_def isdigit_def)
  show "tokenize ''(if -1 1 2)'' = None"
    unfolding tokenize_def
    apply (subst tokenize_loop.simps)
    apply (simp add: isspace_def)
    apply (subst tokenize_loop.simps)
    apply (simp add: isspace_def isdigit_def isalpha_def isalnum_def is_operator_char_def Let_def
        scan_symbol.simps)
    apply (subst tokenize_loop.simps)
    apply (simp add: isspace_def isdigit_def isalpha_def isalnum_def is_operator_char_def Let_def
        stuck)
    done
qed

text \<open>On white space alone the loop runs to the end of the line and pushes nothing.\<close>

lemma whitespace_tail:
  "\<forall>j. i \<le> j \<and> j < length code \<longrightarrow> isspace (code ! j) \<Longrightarrow>
     tokenize_loop code i tokens = Some (Inr tokens)"
proof (induction "length code - i" arbitrary: i)
  case 0
  then show ?case by (subst tokenize_loop.simps) simp
next
  case (Suc k)
  then have "i < length code" and "isspace (code ! i)" by auto
  moreover from Suc have "tokenize_loop code (i + 1) tokens = Some (Inr tokens)"
    by (intro Suc(1)) auto
  ultimately show ?case by (subst tokenize_loop.simps) (simp add: Let_def)
qed






section \<open>Properties of the parser\<close>

text \<open>
  C10. \<^verbatim>\<open>parseExpression\<close> reads \<^verbatim>\<open>tokens[pos]\<close> without a bounds check. A line that is
  empty or holds white space only has no token, so the read at position 0 is out of
  bounds: \<open>parse\<close> fails on every such line and never returns an expression.
\<close>

theorem parse_blank_line_fails:
  assumes "list_all isspace code"
  shows "parse code = Some (Inl TokenIndexOutOfRange)"
proof -
  from assms have "\<forall>j. 0 \<le> j \<and> j < length code \<longrightarrow> isspace (code ! j)"
    by (simp add: list_all_length)
  then have "tokenize code = Some (Inr [])"
    unfolding tokenize_def by (rule whitespace_tail)
  then show ?thesis by (simp add: parse_def parseExpression.simps)
qed

theorem parse_blank_line_fails_witness:
  "list_all isspace [] \<and> parse [] = Some (Inl TokenIndexOutOfRange)
   \<and> list_all isspace [CHR '' '', CHR 0x09, CHR '' '']
   \<and> parse [CHR '' '', CHR 0x09, CHR '' ''] = Some (Inl TokenIndexOutOfRange)"
proof -
  have a: "list_all isspace []" by simp
  have b: "list_all isspace [CHR '' '', CHR 0x09, CHR '' '']" by (simp add: isspace_def)
  show ?thesis
    using a b parse_blank_line_fails [OF a] parse_blank_line_fails [OF b] by simp
qed






section \<open>Notions used in the statements about evaluation\<close>

text \<open>
  \<open>frames_kept st st'\<close>: every environment of \<open>st\<close> is still there in \<open>st'\<close>, with the
  same \<^verbatim>\<open>outer\<close> and with at least the names it had. \<open>same_below L st st'\<close>: the
  environments at the addresses below \<open>L\<close> are the same in both stores.
  \<open>defines_here x\<close>: evaluating \<open>x\<close> can reach a \<^verbatim>\<open>define\<close> form that writes into the
  environment \<open>x\<close> itself is evaluated in, that is, a \<^verbatim>\<open>define\<close> form that is \<open>x\<close> or
  one of the operands of an application or an \<^verbatim>\<open>if\<close> form in \<open>x\<close>, outside the body of
  any \<^verbatim>\<open>lambda\<close> form.
\<close>

definition frames_kept :: "store \<Rightarrow> store \<Rightarrow> bool" where
  "frames_kept st st' \<longleftrightarrow>
     length st \<le> length st' \<and>
     (\<forall>a<length st. outer (st' ! a) = outer (st ! a) \<and> dom (vars (st ! a)) \<subseteq> dom (vars (st' ! a)))"

definition same_below :: "nat \<Rightarrow> store \<Rightarrow> store \<Rightarrow> bool" where
  "same_below L st st' \<longleftrightarrow> (\<forall>a<L. st' ! a = st ! a)"

fun defines_here :: "Expression \<Rightarrow> bool" where
  "defines_here (List (Symbol s # rest)) =
     (s = ''define'' \<or> (s \<noteq> ''lambda'' \<and> list_ex defines_here rest))"
| "defines_here e = False"

text \<open>
  \<open>closures_below L x\<close>: every user-defined function inside \<open>x\<close> holds an environment
  address below \<open>L\<close>. \<open>store_ok st\<close>: in every environment of \<open>st\<close> the \<^verbatim>\<open>outer\<close>
  link, if any, is an older environment, and the functions bound in it hold addresses
  of environments that exist.
\<close>

fun closures_below :: "nat \<Rightarrow> Expression \<Rightarrow> bool"
and function_below :: "nat \<Rightarrow> Function \<Rightarrow> bool" where
  "closures_below L (Number d) = True"
| "closures_below L (Symbol s) = True"
| "closures_below L (List xs) = list_all (closures_below L) xs"
| "closures_below L (Func f) = function_below L f"
| "function_below L (Builtin b) = True"
| "function_below L (UserDefined ps b fenv) = (fenv < L \<and> closures_below L b)"

definition store_ok :: "store \<Rightarrow> bool" where
  "store_ok st \<longleftrightarrow>
     (\<forall>a<length st.
        (\<forall>a'. outer (st ! a) = Some a' \<longrightarrow> a' < a)
        \<and> (\<forall>x v. vars (st ! a) x = Some v \<longrightarrow> closures_below (length st) v))"

section \<open>Evaluation, form by form\<close>

lemma eval_define:
  "eval (Suc n) (List [Symbol ''define'', Symbol var, x]) env st =
     (case eval n x env st of
        None \<Rightarrow> None
      | Some (Inl e, st') \<Rightarrow> Some (Inl e, st')
      | Some (Inr val, st') \<Rightarrow> Some (Inr val, Environment_set st' env var val))"
  by simp

lemma eval_if:
  "eval (Suc n) (List [Symbol ''if'', c, x, y]) env st =
     (case eval n c env st of
        None \<Rightarrow> None
      | Some (Inl e, st') \<Rightarrow> Some (Inl e, st')
      | Some (Inr cond, st') \<Rightarrow>
          if isNumber cond \<and> get_double cond \<noteq> 0 then eval n x env st' else eval n y env st')"
  by (simp add: Let_def split: option.splits prod.splits sum.splits)

lemma eval_application:
  assumes "name \<noteq> ''define''" "name \<noteq> ''lambda''" "name \<noteq> ''if''"
  shows "eval (Suc n) (List (Symbol name # rest)) env st =
     (case eval n (Symbol name) env st of
        None \<Rightarrow> None
      | Some (Inl e, st') \<Rightarrow> Some (Inl e, st')
      | Some (Inr funcExpr, st') \<Rightarrow>
          (case funcExpr of
             Func func \<Rightarrow>
               (case eval_args n rest env st' [] of
                  None \<Rightarrow> None
                | Some (Inl e, st'') \<Rightarrow> Some (Inl e, st'')
                | Some (Inr args, st'') \<Rightarrow>
                    (case func of
                       Builtin builtin \<Rightarrow> Some (call_builtin builtin args, st'')
                     | UserDefined ps b fenv \<Rightarrow>
                         if length args \<noteq> length ps then
                           Some (Inl IncorrectNumberOfArguments, st'')
                         else eval n b (length st'')
                                (bind_params (st'' @ [\<lparr>vars = Map.empty, outer = Some fenv\<rparr>])
                                   (length st'') ps args)))
           | _ \<Rightarrow> Some (Inl FirstElementIsNotAFunction, st')))"
  using assms
  by (simp add: Let_def new_Environment_def
      split: option.splits prod.splits sum.splits Expression.splits Function.splits)

lemma eval_non_symbol_head:
  assumes "\<not> isSymbol first"
  shows "eval (Suc n) (List (first # rest)) env st = Some (Inl FirstElementMustBeASymbol, st)"
  using assms by simp

section \<open>What evaluation does to the store\<close>

lemma frames_kept_refl: "frames_kept st st"
  by (simp add: frames_kept_def)

lemma frames_kept_trans: "frames_kept st st' \<Longrightarrow> frames_kept st' st'' \<Longrightarrow> frames_kept st st''"
proof -
  assume a: "frames_kept st st'" and b: "frames_kept st' st''"
  have "outer (st'' ! i) = outer (st ! i) \<and> dom (vars (st ! i)) \<subseteq> dom (vars (st'' ! i))"
    if "i < length st" for i
  proof -
    from that a have "i < length st'" by (simp add: frames_kept_def)
    with a b that show ?thesis unfolding frames_kept_def by (metis subset_trans)
  qed
  moreover from a b have "length st \<le> length st''" by (simp add: frames_kept_def)
  ultimately show ?thesis by (simp add: frames_kept_def)
qed

lemma length_Environment_set: "length (Environment_set st a x v) = length st"
  by (simp add: Environment_set_def)

lemma frames_kept_set: "frames_kept st (Environment_set st a x v)"
proof -
  have "outer (Environment_set st a x v ! i) = outer (st ! i)
      \<and> dom (vars (st ! i)) \<subseteq> dom (vars (Environment_set st a x v ! i))"
    if "i < length st" for i
    using that by (cases "i = a") (auto simp: Environment_set_def)
  then show ?thesis by (simp add: frames_kept_def length_Environment_set)
qed

lemma frames_kept_append: "frames_kept st (st @ fs)"
  by (simp add: frames_kept_def nth_append)

lemma frames_kept_bind_params: "frames_kept st (bind_params st a ps xs)"
proof (induction st a ps xs rule: bind_params.induct)
  case (1 st a p ps x xs)
  then show ?case
    using frames_kept_set frames_kept_trans by fastforce
qed (simp_all add: frames_kept_refl)

lemma frames_kept_call: "frames_kept st (bind_params (st @ [f]) a ps xs)"
  using frames_kept_append frames_kept_bind_params frames_kept_trans by blast

lemma eval_args_frames_kept_step:
  assumes "\<And>t env st r st'. eval n t env st = Some (r, st') \<Longrightarrow> frames_kept st st'"
  shows "eval_args n ts env st acc = Some (r, st') \<Longrightarrow> frames_kept st st'"
proof (induction ts arbitrary: st acc)
  case Nil
  then show ?case by (simp add: frames_kept_refl)
next
  case (Cons t ts)
  then show ?case
    by (auto split: option.splits sum.splits prod.splits
        dest!: assms intro: frames_kept_trans)
qed

lemma eval_frames_kept_step:
  assumes IHe: "\<And>t env st r st'. eval n t env st = Some (r, st') \<Longrightarrow> frames_kept st st'"
    and IHa: "\<And>ts env st acc r st'. eval_args n ts env st acc = Some (r, st') \<Longrightarrow> frames_kept st st'"
  shows "eval (Suc n) t env st = Some (r, st') \<Longrightarrow> frames_kept st st'"
proof (cases t)
  case (List list)
  assume ev: "eval (Suc n) t env st = Some (r, st')"
  show ?thesis
  proof (cases list)
    case Nil
    with ev List show ?thesis by (simp add: frames_kept_refl)
  next
    case (Cons first rest)
    show ?thesis
    proof (cases first)
      case (Symbol name)
      consider "name = ''define''" | "name = ''lambda''" | "name = ''if''"
        | "name \<noteq> ''define''" "name \<noteq> ''lambda''" "name \<noteq> ''if''" by blast
      then show ?thesis
      proof cases
        case 1
        with ev List Cons Symbol show ?thesis
          by (auto simp: Let_def frames_kept_refl split: if_splits option.splits sum.splits prod.splits
              dest!: IHe intro: frames_kept_trans frames_kept_set)
      next
        case 2
        with ev List Cons Symbol show ?thesis
          by (auto simp: Let_def frames_kept_refl split: if_splits option.splits sum.splits prod.splits)
      next
        case 3
        with ev List Cons Symbol show ?thesis
          by (auto simp: Let_def frames_kept_refl split: if_splits option.splits sum.splits prod.splits
              dest!: IHe intro: frames_kept_trans)
      next
        case 4
        with ev List Cons Symbol show ?thesis
          by (auto simp: Let_def frames_kept_refl new_Environment_def
              split: if_splits option.splits sum.splits prod.splits Expression.splits Function.splits
              dest!: IHe IHa intro: frames_kept_trans;
              meson frames_kept_trans frames_kept_call)
      qed
    qed (use ev List Cons in \<open>simp_all add: frames_kept_refl\<close>)
  qed
qed (auto simp: frames_kept_refl split: option.splits)

lemma eval_frames_kept:
  "eval n t env st = Some (r, st') \<Longrightarrow> frames_kept st st'"
proof (induction n arbitrary: t env st r st')
  case 0
  then show ?case by simp
next
  case (Suc n)
  show ?case
    by (rule eval_frames_kept_step[OF Suc.IH eval_args_frames_kept_step[OF Suc.IH] Suc.prems])
qed

lemma same_below_refl: "same_below L st st"
  by (simp add: same_below_def)

lemma same_below_trans: "same_below L st st' \<Longrightarrow> same_below L st' st'' \<Longrightarrow> same_below L st st''"
  by (simp add: same_below_def)

lemma same_below_set: "L \<le> env \<Longrightarrow> same_below L st (Environment_set st env x v)"
  by (simp add: same_below_def Environment_set_def)

lemma bind_params_other: "a \<noteq> e \<Longrightarrow> bind_params st e ps xs ! a = st ! a"
  by (induction st e ps xs rule: bind_params.induct) (simp_all add: Environment_set_def)

lemma length_bind_params: "length (bind_params st e ps xs) = length st"
  by (induction st e ps xs rule: bind_params.induct) (simp_all add: length_Environment_set)

lemma same_below_call:
  "L \<le> length st \<Longrightarrow> same_below L st (bind_params (st @ [f]) (length st) ps xs)"
  by (simp add: same_below_def bind_params_other nth_append)

lemma eval_length: "eval n t env st = Some (r, st') \<Longrightarrow> length st \<le> length st'"
  using eval_frames_kept by (simp add: frames_kept_def)

lemma eval_args_length: "eval_args n ts env st acc = Some (r, st') \<Longrightarrow> length st \<le> length st'"
  using eval_args_frames_kept_step[OF eval_frames_kept] by (simp add: frames_kept_def)

lemma eval_args_same_below_step:
  assumes "\<And>t env st r st'. eval n t env st = Some (r, st') \<Longrightarrow> L \<le> length st \<Longrightarrow>
             \<not> defines_here t \<or> L \<le> env \<Longrightarrow> same_below L st st'"
  shows "eval_args n ts env st acc = Some (r, st') \<Longrightarrow> L \<le> length st \<Longrightarrow>
           \<not> list_ex defines_here ts \<or> L \<le> env \<Longrightarrow> same_below L st st'"
proof (induction ts arbitrary: st acc)
  case Nil
  then show ?case by (simp add: same_below_refl)
next
  case (Cons t ts)
  from Cons.prems(3) have head: "\<not> defines_here t \<or> L \<le> env"
    and tail: "\<not> list_ex defines_here ts \<or> L \<le> env" by auto
  show ?case
  proof (cases "eval n t env st")
    case None
    with Cons.prems show ?thesis by simp
  next
    case (Some res)
    obtain v st1 where res: "res = (v, st1)" by (cases res)
    have first: "same_below L st st1"
      using assms[OF Some[unfolded res] Cons.prems(2) head] .
    have len: "L \<le> length st1"
      using eval_length[OF Some[unfolded res]] Cons.prems(2) by simp
    show ?thesis
    proof (cases v)
      case (Inl e)
      with Cons.prems(1) Some res first show ?thesis by simp
    next
      case (Inr x)
      with Cons.prems(1) Some res
      have "eval_args n ts env st1 (acc @ [x]) = Some (r, st')" by simp
      from Cons.IH[OF this len tail] first show ?thesis
        by (rule same_below_trans[rotated])
    qed
  qed
qed

lemma eval_same_below_step:
  assumes IHe: "\<And>t env st r st'. eval n t env st = Some (r, st') \<Longrightarrow> L \<le> length st \<Longrightarrow>
             \<not> defines_here t \<or> L \<le> env \<Longrightarrow> same_below L st st'"
    and ev: "eval (Suc n) t env st = Some (r, st')"
    and len: "L \<le> length st"
    and side: "\<not> defines_here t \<or> L \<le> env"
  shows "same_below L st st'"
proof (cases t)
  case (List list)
  have IHa: "same_below L st0 st0'"
    if "eval_args n ts env0 st0 acc = Some (r0, st0')" and "L \<le> length st0"
      and "\<not> list_ex defines_here ts \<or> L \<le> env0" for ts env0 st0 acc r0 st0'
  proof (rule eval_args_same_below_step[where n = n])
    show "eval_args n ts env0 st0 acc = Some (r0, st0')" by (rule that(1))
    show "L \<le> length st0" by (rule that(2))
    show "\<not> list_ex defines_here ts \<or> L \<le> env0" by (rule that(3))
  qed (rule IHe)
  show ?thesis
  proof (cases list)
    case Nil
    with ev List show ?thesis by (simp add: same_below_refl)
  next
    case (Cons first rest)
    show ?thesis
    proof (cases first)
      case (Symbol name)
      consider "name = ''define''" | "name = ''lambda''" | "name = ''if''"
        | "name \<noteq> ''define''" "name \<noteq> ''lambda''" "name \<noteq> ''if''" by blast
      then show ?thesis
      proof cases
        case 1
        with side List Cons Symbol have env: "L \<le> env" by simp
        from ev List Cons Symbol 1
        consider "st' = st"
          | x st1 where "eval n (list ! 2) env st = Some (x, st1)"
              "st' = st1 \<or> (\<exists>var v. st' = Environment_set st1 env var v)"
          by (auto simp: Let_def split: if_splits option.splits sum.splits prod.splits)
        then show ?thesis
        proof cases
          case 1
          then show ?thesis by (simp add: same_below_refl)
        next
          case 2
          from IHe[OF 2(1) len] env have "same_below L st st1" by simp
          with 2(2) env show ?thesis
            using same_below_set same_below_trans by blast
        qed
      next
        case 2
        with ev List Cons Symbol show ?thesis
          by (auto simp: Let_def same_below_refl split: if_splits option.splits sum.splits prod.splits)
      next
        case 3
        from ev List Cons Symbol 3
        consider "st' = st"
          | c st1 where "length list = 4" "eval n (list ! 1) env st = Some (c, st1)"
              "st' = st1 \<or> eval n (list ! 2) env st1 = Some (r, st')
                 \<or> eval n (list ! 3) env st1 = Some (r, st')"
          by (auto simp: Let_def split: if_splits option.splits sum.splits prod.splits)
        then show ?thesis
        proof cases
          case 1
          then show ?thesis by (simp add: same_below_refl)
        next
          case 2
          from 2(1) Cons obtain c' x y where rest: "rest = [c', x, y]"
            by (cases rest; cases "tl rest"; cases "tl (tl rest)") auto
          with side List Cons Symbol 3
          have sides: "\<not> defines_here c' \<or> L \<le> env" "\<not> defines_here x \<or> L \<le> env"
            "\<not> defines_here y \<or> L \<le> env" by auto
          from 2(2) Cons rest have c: "eval n c' env st = Some (c, st1)" by simp
          from IHe[OF c len sides(1)] have first: "same_below L st st1" .
          from eval_length[OF c] len have len1: "L \<le> length st1" by simp
          from 2(3) Cons rest
          consider "st' = st1" | "eval n x env st1 = Some (r, st')"
            | "eval n y env st1 = Some (r, st')" by auto
          then show ?thesis
          proof cases
            case 1
            with first show ?thesis by simp
          next
            case 2
            from IHe[OF 2 len1 sides(2)] first show ?thesis
              using same_below_trans by blast
          next
            case 3
            from IHe[OF 3 len1 sides(3)] first show ?thesis
              using same_below_trans by blast
          qed
        qed
      next
        case 4
        with side List Cons Symbol have args_side: "\<not> list_ex defines_here rest \<or> L \<le> env"
          by auto
        from ev List Cons Symbol 4
        obtain f st1 where head: "eval n (Symbol name) env st = Some (f, st1)"
          and after: "st' = st1 \<or>
            (\<exists>a st2. eval_args n rest env st1 [] = Some (a, st2) \<and>
               (st' = st2 \<or>
                (\<exists>ps b fenv args.
                   eval n b (length st2)
                     (bind_params (st2 @ [\<lparr>vars = Map.empty, outer = Some fenv\<rparr>])
                        (length st2) ps args) = Some (r, st'))))"
          by (auto simp: Let_def new_Environment_def
              split: if_splits option.splits sum.splits prod.splits Expression.splits
                Function.splits)
        from IHe[OF head len] have first: "same_below L st st1" by simp
        from eval_length[OF head] len have len1: "L \<le> length st1" by simp
        from after show ?thesis
        proof (elim disjE exE conjE)
          assume "st' = st1"
          with first show ?thesis by simp
        next
          fix a st2
          assume args: "eval_args n rest env st1 [] = Some (a, st2)" and "st' = st2"
          from IHa[OF args len1 args_side] first this(2) show ?thesis
            using same_below_trans by blast
        next
          fix a st2 ps b fenv args
          assume args: "eval_args n rest env st1 [] = Some (a, st2)"
            and call: "eval n b (length st2)
                     (bind_params (st2 @ [\<lparr>vars = Map.empty, outer = Some fenv\<rparr>])
                        (length st2) ps args) = Some (r, st')"
          from IHa[OF args len1 args_side] first have second: "same_below L st st2"
            using same_below_trans by blast
          from eval_args_length[OF args] len1 have len2: "L \<le> length st2" by simp
          then have frame: "same_below L st2
              (bind_params (st2 @ [\<lparr>vars = Map.empty, outer = Some fenv\<rparr>]) (length st2) ps args)"
            by (rule same_below_call)
          from len2 have "L \<le> length
              (bind_params (st2 @ [\<lparr>vars = Map.empty, outer = Some fenv\<rparr>]) (length st2) ps args)"
            by (simp add: length_bind_params)
          from IHe[OF call this] len2 have "same_below L
              (bind_params (st2 @ [\<lparr>vars = Map.empty, outer = Some fenv\<rparr>]) (length st2) ps args)
              st'" by simp
          with second frame show ?thesis
            using same_below_trans by blast
        qed
      qed
    qed (use ev List Cons in \<open>simp_all add: same_below_refl\<close>)
  qed
qed (use ev in \<open>auto simp: same_below_refl split: option.splits\<close>)

lemma eval_same_below:
  "eval n t env st = Some (r, st') \<Longrightarrow> L \<le> length st \<Longrightarrow> \<not> defines_here t \<or> L \<le> env \<Longrightarrow>
     same_below L st st'"
proof (induction n arbitrary: t env st r st')
  case 0
  then show ?case by simp
next
  case (Suc n)
  show ?case
    by (rule eval_same_below_step[OF Suc.IH Suc.prems])
qed

section \<open>The depth bound\<close>

text \<open>
  A result obtained within some depth is the result within every greater depth: the
  bound decides only whether a result is reached, never which one.
\<close>

lemma eval_args_more_fuel_step:
  assumes IH: "\<And>t env st r. eval n t env st = Some r \<Longrightarrow> eval (Suc n) t env st = Some r"
  shows "eval_args n ts env st acc = Some r \<Longrightarrow> eval_args (Suc n) ts env st acc = Some r"
proof (induction ts arbitrary: st acc)
  case Nil
  then show ?case by simp
next
  case (Cons t ts)
  from Cons.prems obtain res where first: "eval n t env st = Some res"
    by (auto split: option.splits)
  note first' = IH[OF first]
  show ?case
  proof (cases res)
    case (Pair v st1)
    show ?thesis
    proof (cases v)
      case (Inl e)
      with Cons.prems first first' Pair show ?thesis
        by (simp del: eval.simps)
    next
      case (Inr x)
      with Cons.prems first Pair have "eval_args n ts env st1 (acc @ [x]) = Some r"
        by simp
      from Cons.IH[OF this] first' Pair Inr show ?thesis
        by (simp del: eval.simps)
    qed
  qed
qed

lemma eval_more_fuel_step:
  assumes IH: "\<And>t env st r. eval n t env st = Some r \<Longrightarrow> eval (Suc n) t env st = Some r"
    and ev: "eval (Suc n) t env st = Some r"
  shows "eval (Suc (Suc n)) t env st = Some r"
proof (cases t)
  case (List list)
  have IHa: "eval_args (Suc n) ts env0 st0 acc = Some r0"
    if "eval_args n ts env0 st0 acc = Some r0" for ts env0 st0 acc r0
    using that by (rule eval_args_more_fuel_step[rotated]) (rule IH)
  show ?thesis
  proof (cases list)
    case Nil
    with ev List show ?thesis by simp
  next
    case (Cons first rest)
    show ?thesis
    proof (cases first)
      case (Symbol name)
      consider "name = ''define''" | "name = ''lambda''" | "name = ''if''"
        | "name \<noteq> ''define''" "name \<noteq> ''lambda''" "name \<noteq> ''if''" by blast
      then show ?thesis
      proof cases
        case 1
        with ev List Cons Symbol show ?thesis
          by (auto simp: Let_def split: if_splits option.splits sum.splits prod.splits dest!: IH)
      next
        case 2
        with ev List Cons Symbol show ?thesis
          by (auto simp: Let_def split: if_splits option.splits sum.splits prod.splits)
      next
        case 3
        with ev List Cons Symbol show ?thesis
          by (auto simp: Let_def split: if_splits option.splits sum.splits prod.splits dest!: IH)
      next
        case 4
        note unfold_n = eval_application[OF 4, of n rest env st]
        note unfold_Suc = eval_application[OF 4, of "Suc n" rest env st]
        from ev List Cons Symbol have ev': "eval (Suc n) (List (Symbol name # rest)) env st = Some r"
          by simp
        from ev' obtain v st1 where head: "eval n (Symbol name) env st = Some (v, st1)"
          unfolding unfold_n by (cases "eval n (Symbol name) env st") auto
        note head' = IH[OF head]
        have "eval (Suc (Suc n)) (List (Symbol name # rest)) env st = Some r"
        proof (cases v)
          case (Inl e)
          with ev' head head' show ?thesis
            unfolding unfold_n unfold_Suc by (auto simp del: eval.simps)
        next
          case (Inr f)
          show ?thesis
          proof (cases f)
            case (Func fn)
            from ev' head Inr Func obtain a st2 where
              args: "eval_args n rest env st1 [] = Some (a, st2)"
              unfolding unfold_n by (cases "eval_args n rest env st1 []") auto
            note args' = IHa[OF args]
            show ?thesis
            proof (cases a)
              case (Inl e)
              with ev' head head' Inr Func args args' show ?thesis
                unfolding unfold_n unfold_Suc by (auto simp del: eval.simps)
            next
              case args_ok: (Inr xs)
              show ?thesis
              proof (cases fn)
                case (Builtin bf)
                with ev' head head' Inr Func args args' args_ok show ?thesis
                  unfolding unfold_n unfold_Suc by (auto simp del: eval.simps)
              next
                case (UserDefined ps b fenv)
                show ?thesis
                proof (cases "length xs = length ps")
                  case False
                  with ev' head head' Inr Func args args' args_ok UserDefined show ?thesis
                    unfolding unfold_n unfold_Suc by (auto simp del: eval.simps)
                next
                  case True
                  with ev' head Inr Func args args_ok UserDefined
                  have "eval n b (length st2)
                      (bind_params (st2 @ [\<lparr>vars = Map.empty, outer = Some fenv\<rparr>])
                         (length st2) ps xs) = Some r"
                    unfolding unfold_n by (auto simp del: eval.simps)
                  from IH[OF this] True head' Inr Func args' args_ok UserDefined show ?thesis
                    unfolding unfold_Suc by (auto simp del: eval.simps)
                qed
              qed
            qed
          qed (use ev' head head' Inr in \<open>simp_all add: unfold_n unfold_Suc del: eval.simps\<close>)
        qed
        with List Cons Symbol show ?thesis by simp
      qed
    qed (use ev List Cons in simp_all)
  qed
qed (use ev in auto)

lemma eval_more_fuel: "eval n t env st = Some r \<Longrightarrow> eval (Suc n) t env st = Some r"
proof (induction n arbitrary: t env st r)
  case 0
  then show ?case by simp
next
  case (Suc n)
  show ?case by (rule eval_more_fuel_step[OF Suc.IH Suc.prems])
qed

lemma eval_fuel_mono: "eval n t env st = Some r \<Longrightarrow> n \<le> m \<Longrightarrow> eval m t env st = Some r"
  by (induction m) (auto simp: le_Suc_eq dest: eval_more_fuel)

lemma main_cycle_fuel_mono:
  "main_cycle n line st = Some r \<Longrightarrow> n \<le> m \<Longrightarrow> main_cycle m line st = Some r"
  by (auto simp: main_cycle_def split: option.splits sum.splits intro: eval_fuel_mono)

lemma main_loop_fuel_mono:
  "main_loop n lines st = Some r \<Longrightarrow> n \<le> m \<Longrightarrow> main_loop m lines st = Some r"
proof (induction lines arbitrary: st r)
  case Nil
  then show ?case by simp
next
  case (Cons line lines)
  from Cons.prems(1) obtain x st1 where first: "main_cycle n line st = Some (x, st1)"
    by (auto split: option.splits)
  with Cons.prems(1) obtain xs st2 where rest: "main_loop n lines st1 = Some (xs, st2)"
    and r: "r = (x # xs, st2)"
    by (auto split: option.splits)
  from main_cycle_fuel_mono[OF first Cons.prems(2)] Cons.IH[OF rest Cons.prems(2)] r
  show ?case by simp
qed

text \<open>The equations that evaluate one line of input on a given store.\<close>

lemmas line_defs =
  main_cycle_def parse_def parseExpression.simps parseList_loop.simps tokenize_def tokenize_loop.simps scan_number.simps scan_symbol.simps
  isspace_def isdigit_def isalpha_def
  isalnum_def is_operator_char_def char_at_def Let_def substr_def stod_def digits_value_def
  digit_value_def initial_store_def globalEnv_def addBuiltins_def Environment_set_def
  eval_nat_numeral new_Environment_def builtin_plus_def builtin_minus_def Environment_find.simps

text \<open>A lookup reads the environments at and below its starting address only.\<close>

lemma Environment_find_same:
  "a < length st \<Longrightarrow> length st \<le> length st' \<Longrightarrow> same_below (Suc a) st st' \<Longrightarrow>
     Environment_find st' a x = Environment_find st a x"
proof (induction a rule: less_induct)
  case (less a)
  from less.prems have here: "st' ! a = st ! a"
    by (simp add: same_below_def)
  have "Environment_find st' b x = Environment_find st b x" if "b < a" for b
    using less.IH[OF that] less.prems that by (simp add: same_below_def)
  with here less.prems(1,2) show ?case
    by (subst (1 2) Environment_find.simps) (auto split: option.splits)
qed

section \<open>Errors and the store\<close>

text \<open>
  C3, counterexample. The claim: after an evaluation that fails, every environment is
  as it was before the cycle. In the source the line \<open>(+ (define x 1) y)\<close>, read when
  neither \<open>x\<close> nor \<open>y\<close> is bound, fails on \<open>y\<close> after the first operand has bound
  \<open>x\<close> in the global environment: the cycle ends in an error and \<open>x\<close> stays bound.
\<close>

theorem failed_cycle_keeps_completed_define:
  "main_cycle 3 ''(+ (define x 1) y)'' initial_store =
     Some (Inl (UndefinedSymbol ''y''), Environment_set initial_store globalEnv ''x'' (Number 1))
   \<and> Environment_find initial_store globalEnv ''x'' = None
   \<and> Environment_find (Environment_set initial_store globalEnv ''x'' (Number 1)) globalEnv ''x''
       = Some (Number 1)"
  by (simp add: line_defs)

text \<open>
  C3, amended. An evaluation that fails removes no environment, no binding and changes
  no \<^verbatim>\<open>outer\<close> link. When no \<^verbatim>\<open>define\<close> form can write into the environment the term is
  evaluated in, all environments that existed before are exactly as they were, and every
  lookup in them gives what it gave before.
\<close>

theorem failed_evaluation_store:
  assumes "eval n t env st = Some (Inl e, st')"
  shows "frames_kept st st'
       \<and> (\<not> defines_here t \<longrightarrow>
            take (length st) st' = st
            \<and> (\<forall>a<length st. \<forall>x. Environment_find st' a x = Environment_find st a x))"
proof (intro conjI impI allI)
  show kept: "frames_kept st st'"
    using assms by (rule eval_frames_kept)
  then have len: "length st \<le> length st'"
    by (simp add: frames_kept_def)
  assume "\<not> defines_here t"
  then have same: "same_below (length st) st st'"
    using eval_same_below[OF assms, of "length st"] by simp
  with len show "take (length st) st' = st"
    by (simp add: same_below_def list_eq_iff_nth_eq)
  fix a x
  assume "a < length st"
  moreover from this same have "same_below (Suc a) st st'"
    by (simp add: same_below_def)
  ultimately show "Environment_find st' a x = Environment_find st a x"
    using len by (simp add: Environment_find_same)
qed

theorem failed_evaluation_store_witness:
  "eval 2 (List [Symbol ''foo'']) globalEnv initial_store
     = Some (Inl (UndefinedSymbol ''foo''), initial_store)
   \<and> frames_kept initial_store initial_store
   \<and> \<not> defines_here (List [Symbol ''foo''])
   \<and> take (length initial_store) initial_store = initial_store
   \<and> Environment_find initial_store globalEnv ''+'' = Some (Func (Builtin Plus))"
proof -
  have run: "eval 2 (List [Symbol ''foo'']) globalEnv initial_store
     = Some (Inl (UndefinedSymbol ''foo''), initial_store)"
    by (simp add: line_defs)
  have "\<not> defines_here (List [Symbol ''foo''])" by simp
  moreover have "Environment_find initial_store globalEnv ''+'' = Some (Func (Builtin Plus))"
    by (simp add: line_defs)
  ultimately show ?thesis
    using run failed_evaluation_store [OF run] by simp
qed

section \<open>Function application\<close>

text \<open>
  C1, counterexample. The claim: the first element of a list that is not a special form
  is evaluated, also when it is itself a list or a number, and the application goes on
  when the result is a function. In the source a list whose first element is not a
  symbol is rejected before anything is evaluated: the \<^verbatim>\<open>lambda\<close> form below evaluates
  to a function, but applying it directly fails.
\<close>

theorem list_head_is_rejected:
  "eval 1 (List [Symbol ''lambda'', List [Symbol ''x''], Symbol ''x'']) globalEnv initial_store =
     Some (Inr (Func (UserDefined [''x''] (Symbol ''x'') globalEnv)), initial_store)
   \<and> eval 2 (List [List [Symbol ''lambda'', List [Symbol ''x''], Symbol ''x''], Number 5])
         globalEnv initial_store =
       Some (Inl FirstElementMustBeASymbol, initial_store)
   \<and> main_cycle 2 ''((lambda (x) x) 5)'' initial_store =
       Some (Inl FirstElementMustBeASymbol, initial_store)
   \<and> main_cycle 2 ''(5 1)'' initial_store = Some (Inl FirstElementMustBeASymbol, initial_store)"
  by (simp add: line_defs)

text \<open>
  C1, amended. A first element that is not a symbol fails at once with ``first element
  must be a symbol''. A first element that is a symbol other than \<^verbatim>\<open>define\<close>,
  \<^verbatim>\<open>lambda\<close> and \<^verbatim>\<open>if\<close> is looked up in the current environment: unbound, the
  evaluation fails with ``undefined symbol''; bound to something that is not a function,
  it fails with ``first element is not a function'' and no argument is evaluated; bound
  to a function, the arguments are evaluated and the function is called.
\<close>

theorem application_head:
  assumes "name \<noteq> ''define''" and "name \<noteq> ''lambda''" and "name \<noteq> ''if''"
  shows "(\<not> isSymbol first \<longrightarrow>
            eval (Suc n) (List (first # rest)) env st = Some (Inl FirstElementMustBeASymbol, st))
       \<and> (Environment_find st env name = None \<longrightarrow>
            eval (Suc (Suc n)) (List (Symbol name # rest)) env st =
              Some (Inl (UndefinedSymbol name), st))
       \<and> (\<forall>v. Environment_find st env name = Some v \<and> \<not> isFunction v \<longrightarrow>
            eval (Suc (Suc n)) (List (Symbol name # rest)) env st =
              Some (Inl FirstElementIsNotAFunction, st))
       \<and> (\<forall>f. Environment_find st env name = Some (Func f) \<longrightarrow>
            eval (Suc (Suc n)) (List (Symbol name # rest)) env st =
              (case eval_args (Suc n) rest env st [] of
                 None \<Rightarrow> None
               | Some (Inl e, st') \<Rightarrow> Some (Inl e, st')
               | Some (Inr args, st') \<Rightarrow>
                   (case f of
                      Builtin builtin \<Rightarrow> Some (call_builtin builtin args, st')
                    | UserDefined ps b fenv \<Rightarrow>
                        if length args \<noteq> length ps then Some (Inl IncorrectNumberOfArguments, st')
                        else eval (Suc n) b (length st')
                               (bind_params (st' @ [\<lparr>vars = Map.empty, outer = Some fenv\<rparr>])
                                  (length st') ps args))))"
proof (intro conjI impI allI)
  assume "\<not> isSymbol first"
  then show "eval (Suc n) (List (first # rest)) env st = Some (Inl FirstElementMustBeASymbol, st)"
    by (rule eval_non_symbol_head)
next
  assume "Environment_find st env name = None"
  then show "eval (Suc (Suc n)) (List (Symbol name # rest)) env st =
      Some (Inl (UndefinedSymbol name), st)"
    by (subst eval_application[OF assms]) simp
next
  fix v
  assume "Environment_find st env name = Some v \<and> \<not> isFunction v"
  then show "eval (Suc (Suc n)) (List (Symbol name # rest)) env st =
      Some (Inl FirstElementIsNotAFunction, st)"
    by (subst eval_application[OF assms]) (cases v; simp)
next
  fix f
  assume "Environment_find st env name = Some (Func f)"
  then show "eval (Suc (Suc n)) (List (Symbol name # rest)) env st =
              (case eval_args (Suc n) rest env st [] of
                 None \<Rightarrow> None
               | Some (Inl e, st') \<Rightarrow> Some (Inl e, st')
               | Some (Inr args, st') \<Rightarrow>
                   (case f of
                      Builtin builtin \<Rightarrow> Some (call_builtin builtin args, st')
                    | UserDefined ps b fenv \<Rightarrow>
                        if length args \<noteq> length ps then Some (Inl IncorrectNumberOfArguments, st')
                        else eval (Suc n) b (length st')
                               (bind_params (st' @ [\<lparr>vars = Map.empty, outer = Some fenv\<rparr>])
                                  (length st') ps args)))"
    by (subst eval_application[OF assms]) simp
qed

theorem application_head_witness:
  "''+'' \<noteq> ''define'' \<and> ''+'' \<noteq> ''lambda'' \<and> ''+'' \<noteq> ''if''
   \<and> \<not> isSymbol (Number 5)
   \<and> eval 2 (List [Number 5, Number 1]) globalEnv initial_store =
       Some (Inl FirstElementMustBeASymbol, initial_store)
   \<and> Environment_find initial_store globalEnv ''foo'' = None
   \<and> eval 2 (List [Symbol ''foo'', Number 1]) globalEnv initial_store =
       Some (Inl (UndefinedSymbol ''foo''), initial_store)
   \<and> Environment_find (Environment_set initial_store globalEnv ''x'' (Number 7)) globalEnv ''x'' =
       Some (Number 7)
   \<and> eval 2 (List [Symbol ''x'', Number 1]) globalEnv
         (Environment_set initial_store globalEnv ''x'' (Number 7)) =
       Some (Inl FirstElementIsNotAFunction, Environment_set initial_store globalEnv ''x'' (Number 7))
   \<and> Environment_find initial_store globalEnv ''+'' = Some (Func (Builtin Plus))
   \<and> eval 2 (List [Symbol ''+'', Number 1, Number 2]) globalEnv initial_store =
       Some (Inr (Number 3), initial_store)"
proof -
  have names: "''+'' \<noteq> ''define''" "''+'' \<noteq> ''lambda''" "''+'' \<noteq> ''if''"
    "''foo'' \<noteq> ''define''" "''foo'' \<noteq> ''lambda''" "''foo'' \<noteq> ''if''"
    "''x'' \<noteq> ''define''" "''x'' \<noteq> ''lambda''" "''x'' \<noteq> ''if''"
    by simp_all
  have finds: "Environment_find initial_store globalEnv ''foo'' = None"
    "Environment_find (Environment_set initial_store globalEnv ''x'' (Number 7)) globalEnv ''x'' =
       Some (Number 7)"
    "Environment_find initial_store globalEnv ''+'' = Some (Func (Builtin Plus))"
    by (simp_all add: line_defs)
  have args: "eval_args 1 [Number 1, Number 2] globalEnv initial_store [] =
      Some (Inr [Number 1, Number 2], initial_store)"
    by (simp add: eval_nat_numeral)
  have "eval 2 (List [Number 5, Number 1]) globalEnv initial_store =
       Some (Inl FirstElementMustBeASymbol, initial_store)"
    using application_head [OF names(1-3), of "Number 5" 0 "[Number 1]" globalEnv initial_store]
    by (simp add: eval_nat_numeral)
  moreover have "eval 2 (List [Symbol ''foo'', Number 1]) globalEnv initial_store =
       Some (Inl (UndefinedSymbol ''foo''), initial_store)"
    using application_head [OF names(4-6), of "Number 5" 0 "[Number 1]" globalEnv initial_store]
      finds(1) by (simp add: eval_nat_numeral)
  moreover have "eval 2 (List [Symbol ''x'', Number 1]) globalEnv
         (Environment_set initial_store globalEnv ''x'' (Number 7)) =
       Some (Inl FirstElementIsNotAFunction, Environment_set initial_store globalEnv ''x'' (Number 7))"
    using application_head [OF names(7-9), of "Number 5" 0 "[Number 1]" globalEnv
        "Environment_set initial_store globalEnv ''x'' (Number 7)"]
      finds(2) by (simp add: eval_nat_numeral)
  moreover have "eval 2 (List [Symbol ''+'', Number 1, Number 2]) globalEnv initial_store =
       Some (Inr (Number 3), initial_store)"
    using application_head [OF names(1-3), of "Number 5" 0 "[Number 1, Number 2]" globalEnv
        initial_store]
      finds(3) args by (simp add: eval_nat_numeral builtin_plus_def)
  ultimately show ?thesis
    using names finds by simp
qed

section \<open>The special forms\<close>

text \<open>
  C4. An \<^verbatim>\<open>if\<close> form of four elements evaluates its condition first; an error of the
  condition is the error of the form. When the condition's value is a number other than
  zero (negative ones included) the form evaluates to its third element, and in every
  other case, that is the number zero, a symbol, a list (the empty one too) or a
  function, to its fourth element. So \<open>(if 0 1 2)\<close> evaluates to 2, \<open>(if 1 1 2)\<close> to 1
  and \<open>(if -1 1 2)\<close>, the form with the number \<open>-1\<close> as its condition, to 1.
\<close>

theorem if_form:
  "(\<forall>e st1. eval n c env st = Some (Inl e, st1) \<longrightarrow>
      eval (Suc n) (List [Symbol ''if'', c, x, y]) env st = Some (Inl e, st1))
   \<and> (\<forall>d st1. eval n c env st = Some (Inr (Number d), st1) \<and> d \<noteq> 0 \<longrightarrow>
        eval (Suc n) (List [Symbol ''if'', c, x, y]) env st = eval n x env st1)
   \<and> (\<forall>v st1. eval n c env st = Some (Inr v, st1)
          \<and> (v = Number 0 \<or> isSymbol v \<or> isList v \<or> isFunction v) \<longrightarrow>
        eval (Suc n) (List [Symbol ''if'', c, x, y]) env st = eval n y env st1)
   \<and> eval (Suc (Suc n)) (List [Symbol ''if'', Number 0, Number 1, Number 2]) env st = Some (Inr (Number 2), st)
   \<and> eval (Suc (Suc n)) (List [Symbol ''if'', Number 1, Number 1, Number 2]) env st = Some (Inr (Number 1), st)
   \<and> eval (Suc (Suc n)) (List [Symbol ''if'', Number (- 1), Number 1, Number 2]) env st =
       Some (Inr (Number 1), st)"
proof (intro conjI allI impI)
  fix e st1
  assume "eval n c env st = Some (Inl e, st1)"
  then show "eval (Suc n) (List [Symbol ''if'', c, x, y]) env st = Some (Inl e, st1)"
    by (subst eval_if) simp
next
  fix d st1
  assume "eval n c env st = Some (Inr (Number d), st1) \<and> d \<noteq> 0"
  then show "eval (Suc n) (List [Symbol ''if'', c, x, y]) env st = eval n x env st1"
    by (subst eval_if) simp
next
  fix v st1
  assume "eval n c env st = Some (Inr v, st1)
          \<and> (v = Number 0 \<or> isSymbol v \<or> isList v \<or> isFunction v)"
  then show "eval (Suc n) (List [Symbol ''if'', c, x, y]) env st = eval n y env st1"
    by (subst eval_if) (cases v; simp)
qed (simp_all add: eval_nat_numeral)

theorem if_form_witness:
  "eval 1 (Symbol ''foo'') globalEnv initial_store = Some (Inl (UndefinedSymbol ''foo''), initial_store)
   \<and> eval 2 (List [Symbol ''if'', Symbol ''foo'', Number 1, Number 2]) globalEnv initial_store =
       Some (Inl (UndefinedSymbol ''foo''), initial_store)
   \<and> eval 1 (Number (- 1)) globalEnv initial_store = Some (Inr (Number (- 1)), initial_store)
   \<and> eval 2 (List [Symbol ''if'', Number (- 1), Number 1, Number 2]) globalEnv initial_store =
       eval 1 (Number 1) globalEnv initial_store
   \<and> eval 1 (List []) globalEnv initial_store = Some (Inr (List []), initial_store)
   \<and> isList (List [])
   \<and> eval 2 (List [Symbol ''if'', List [], Number 1, Number 2]) globalEnv initial_store =
       eval 1 (Number 2) globalEnv initial_store
   \<and> eval 1 (Symbol ''+'') globalEnv initial_store = Some (Inr (Func (Builtin Plus)), initial_store)
   \<and> isFunction (Func (Builtin Plus))
   \<and> eval 2 (List [Symbol ''if'', Symbol ''+'', Number 1, Number 2]) globalEnv initial_store =
       eval 1 (Number 2) globalEnv initial_store
   \<and> main_cycle 2 ''(if 0 1 2)'' initial_store = Some (Inr (Number 2), initial_store)
   \<and> main_cycle 2 ''(if 1 1 2)'' initial_store = Some (Inr (Number 1), initial_store)"
proof -
  have c1: "eval 1 (Symbol ''foo'') globalEnv initial_store =
      Some (Inl (UndefinedSymbol ''foo''), initial_store)"
    by (simp add: line_defs)
  have c2: "eval 1 (Number (- 1)) globalEnv initial_store = Some (Inr (Number (- 1)), initial_store)"
    by simp
  have c3: "eval 1 (List []) globalEnv initial_store = Some (Inr (List []), initial_store)"
    by simp
  have c4: "eval 1 (Symbol ''+'') globalEnv initial_store =
      Some (Inr (Func (Builtin Plus)), initial_store)"
    by (simp add: line_defs)
  have lines: "main_cycle 2 ''(if 0 1 2)'' initial_store = Some (Inr (Number 2), initial_store)"
    "main_cycle 2 ''(if 1 1 2)'' initial_store = Some (Inr (Number 1), initial_store)"
    by (simp_all add: line_defs)
  have "eval 2 (List [Symbol ''if'', Symbol ''foo'', Number 1, Number 2]) globalEnv initial_store =
       Some (Inl (UndefinedSymbol ''foo''), initial_store)"
    using if_form [of 1 "Symbol ''foo''" globalEnv initial_store "Number 1" "Number 2"] c1
    by (simp add: eval_nat_numeral)
  moreover have "eval 2 (List [Symbol ''if'', Number (- 1), Number 1, Number 2]) globalEnv
       initial_store = eval 1 (Number 1) globalEnv initial_store"
    using if_form [of 1 "Number (- 1)" globalEnv initial_store "Number 1" "Number 2"] c2
    by (simp add: eval_nat_numeral)
  moreover have "eval 2 (List [Symbol ''if'', List [], Number 1, Number 2]) globalEnv initial_store =
       eval 1 (Number 2) globalEnv initial_store"
    using if_form [of 1 "List []" globalEnv initial_store "Number 1" "Number 2"] c3
    by (simp add: eval_nat_numeral)
  moreover have "eval 2 (List [Symbol ''if'', Symbol ''+'', Number 1, Number 2]) globalEnv
       initial_store = eval 1 (Number 2) globalEnv initial_store"
    using if_form [of 1 "Symbol ''+''" globalEnv initial_store "Number 1" "Number 2"] c4
    by (simp add: eval_nat_numeral)
  ultimately show ?thesis
    using c1 c2 c3 c4 lines by simp
qed

lemma Environment_find_set_same:
  "env < length st \<Longrightarrow> Environment_find (Environment_set st env var v) env var = Some v"
  by (subst Environment_find.simps) (simp add: Environment_set_def)

text \<open>
  C7. A \<^verbatim>\<open>define\<close> form that does not have exactly three elements, or whose second
  element is not a symbol, fails with ``invalid define syntax''. Otherwise its third
  element is evaluated in the current environment; an error there is the error of the
  form and nothing is bound. A value is bound to the name in the current environment
  and is the value of the form: a lookup of the name from that environment then yields
  it, and no other environment, no other name and no \<^verbatim>\<open>outer\<close> link is changed.
\<close>

theorem define_form:
  "((length rest \<noteq> 2 \<or> \<not> isSymbol (rest ! 0)) \<longrightarrow>
      eval (Suc n) (List (Symbol ''define'' # rest)) env st = Some (Inl InvalidDefineSyntax, st))
   \<and> (\<forall>e st1. eval n x env st = Some (Inl e, st1) \<longrightarrow>
        eval (Suc n) (List [Symbol ''define'', Symbol var, x]) env st = Some (Inl e, st1))
   \<and> (\<forall>v st1. eval n x env st = Some (Inr v, st1) \<and> env < length st \<longrightarrow>
        eval (Suc n) (List [Symbol ''define'', Symbol var, x]) env st =
          Some (Inr v, Environment_set st1 env var v)
        \<and> Environment_find (Environment_set st1 env var v) env var = Some v
        \<and> length (Environment_set st1 env var v) = length st1
        \<and> (\<forall>a. a \<noteq> env \<longrightarrow> Environment_set st1 env var v ! a = st1 ! a)
        \<and> outer (Environment_set st1 env var v ! env) = outer (st1 ! env)
        \<and> (\<forall>y. y \<noteq> var \<longrightarrow>
              vars (Environment_set st1 env var v ! env) y = vars (st1 ! env) y))"
proof (intro conjI allI impI)
  assume "length rest \<noteq> 2 \<or> \<not> isSymbol (rest ! 0)"
  then show "eval (Suc n) (List (Symbol ''define'' # rest)) env st =
      Some (Inl InvalidDefineSyntax, st)"
    by auto
next
  fix e st1
  assume "eval n x env st = Some (Inl e, st1)"
  then show "eval (Suc n) (List [Symbol ''define'', Symbol var, x]) env st = Some (Inl e, st1)"
    by (subst eval_define) simp
next
  fix v st1
  assume a: "eval n x env st = Some (Inr v, st1) \<and> env < length st"
  then have env: "env < length st1"
    using eval_length by fastforce
  from a show "eval (Suc n) (List [Symbol ''define'', Symbol var, x]) env st =
      Some (Inr v, Environment_set st1 env var v)"
    by (subst eval_define) simp
  from env show "Environment_find (Environment_set st1 env var v) env var = Some v"
    by (rule Environment_find_set_same)
  show "length (Environment_set st1 env var v) = length st1"
    by (rule length_Environment_set)
  from env show "outer (Environment_set st1 env var v ! env) = outer (st1 ! env)"
    by (simp add: Environment_set_def)
  {
    fix a
    assume "a \<noteq> env"
    then show "Environment_set st1 env var v ! a = st1 ! a"
      by (simp add: Environment_set_def)
  }
  {
    fix y
    assume "y \<noteq> var"
    with env show "vars (Environment_set st1 env var v ! env) y = vars (st1 ! env) y"
      by (simp add: Environment_set_def)
  }
qed

theorem define_form_witness:
  "isSymbol (Number 3) = False
   \<and> eval 2 (List [Symbol ''define'', Number 3, Number 4]) globalEnv initial_store =
       Some (Inl InvalidDefineSyntax, initial_store)
   \<and> eval 2 (List [Symbol ''+'', Number 2, Symbol ''z'']) globalEnv initial_store =
       Some (Inl (UndefinedSymbol ''z''), initial_store)
   \<and> eval 3 (List [Symbol ''define'', Symbol ''y'', List [Symbol ''+'', Number 2, Symbol ''z'']])
         globalEnv initial_store =
       Some (Inl (UndefinedSymbol ''z''), initial_store)
   \<and> eval 2 (List [Symbol ''+'', Number 2, Number 3]) globalEnv initial_store =
       Some (Inr (Number 5), initial_store)
   \<and> globalEnv < length initial_store
   \<and> eval 3 (List [Symbol ''define'', Symbol ''y'', List [Symbol ''+'', Number 2, Number 3]])
         globalEnv initial_store =
       Some (Inr (Number 5), Environment_set initial_store globalEnv ''y'' (Number 5))
   \<and> Environment_find (Environment_set initial_store globalEnv ''y'' (Number 5)) globalEnv ''y'' =
       Some (Number 5)
   \<and> map_option fst (main_loop 3 [''(define y (+ 2 3))'', ''y''] initial_store) =
       Some [Inr (Number 5), Inr (Number 5)]"
proof -
  have bad: "length [Number 3, Number 4] \<noteq> 2 \<or> \<not> isSymbol ([Number 3, Number 4] ! 0)"
    by simp
  have fails: "eval 2 (List [Symbol ''+'', Number 2, Symbol ''z'']) globalEnv initial_store =
       Some (Inl (UndefinedSymbol ''z''), initial_store)"
    by (simp add: line_defs)
  have runs: "eval 2 (List [Symbol ''+'', Number 2, Number 3]) globalEnv initial_store =
       Some (Inr (Number 5), initial_store)"
    by (simp add: line_defs)
  have env: "globalEnv < length initial_store"
    by (simp add: line_defs)
  have lines: "map_option fst (main_loop 3 [''(define y (+ 2 3))'', ''y''] initial_store) =
       Some [Inr (Number 5), Inr (Number 5)]"
    by (simp add: line_defs)
  have "eval 2 (List [Symbol ''define'', Number 3, Number 4]) globalEnv initial_store =
       Some (Inl InvalidDefineSyntax, initial_store)"
    using define_form [of "[Number 3, Number 4]" 1 globalEnv initial_store] bad
    by (simp add: line_defs)
  moreover have "eval 3 (List [Symbol ''define'', Symbol ''y'',
        List [Symbol ''+'', Number 2, Symbol ''z'']]) globalEnv initial_store =
       Some (Inl (UndefinedSymbol ''z''), initial_store)"
    using define_form [of _ 2 globalEnv initial_store "List [Symbol ''+'', Number 2, Symbol ''z'']"
        "''y''"] fails
    by (simp add: line_defs)
  moreover have "eval 3 (List [Symbol ''define'', Symbol ''y'',
        List [Symbol ''+'', Number 2, Number 3]]) globalEnv initial_store =
       Some (Inr (Number 5), Environment_set initial_store globalEnv ''y'' (Number 5))
     \<and> Environment_find (Environment_set initial_store globalEnv ''y'' (Number 5)) globalEnv ''y'' =
       Some (Number 5)"
    using define_form [of _ 2 globalEnv initial_store "List [Symbol ''+'', Number 2, Number 3]"
        "''y''"] runs env
    by (simp add: line_defs)
  ultimately show ?thesis
    using fails runs env lines by simp
qed

section \<open>The built-in functions\<close>








section \<open>Calls of user-defined functions\<close>

text \<open>
  The binding loop writes into the new environment only: after it, that environment
  maps the parameters to the arguments, a later parameter of the same name overwriting
  an earlier one.
\<close>

lemma bind_params_frame:
  "a < length st \<Longrightarrow>
     bind_params st a ps xs = st[a := (st ! a)\<lparr>vars := (vars (st ! a))(ps [\<mapsto>] xs)\<rparr>]"
proof (induction st a ps xs rule: bind_params.induct)
  case (1 st a p ps x xs)
  let ?st1 = "Environment_set st a p x"
  have len: "a < length ?st1"
    using "1.prems" by (simp add: length_Environment_set)
  have at: "?st1 ! a = (st ! a)\<lparr>vars := (vars (st ! a))(p \<mapsto> x)\<rparr>"
    using "1.prems" by (simp add: Environment_set_def)
  have "bind_params st a (p # ps) (x # xs) = bind_params ?st1 a ps xs"
    by simp
  also have "\<dots> = ?st1[a := (?st1 ! a)\<lparr>vars := (vars (?st1 ! a))(ps [\<mapsto>] xs)\<rparr>]"
    by (rule "1.IH"[OF len])
  also have "\<dots> = st[a := (st ! a)\<lparr>vars := (vars (st ! a))(p \<mapsto> x, ps [\<mapsto>] xs)\<rparr>]"
    unfolding at by (simp add: Environment_set_def)
  finally show ?case
    by (simp only: map_upds_Cons)
qed (simp_all add: list_update_same_conv)

lemma bind_params_new_frame:
  "bind_params (st @ [\<lparr>vars = Map.empty, outer = out\<rparr>]) (length st) ps xs =
     st @ [\<lparr>vars = Map.empty(ps [\<mapsto>] xs), outer = out\<rparr>]"
  by (simp add: bind_params_frame)

lemma map_upds_last_occurrence:
  "length ps = length xs \<Longrightarrow> i < length ps \<Longrightarrow> ps ! i \<notin> set (drop (Suc i) ps) \<Longrightarrow>
     (m(ps [\<mapsto>] xs)) (ps ! i) = Some (xs ! i)"
proof (induction ps arbitrary: xs i m)
  case Nil
  then show ?case by simp
next
  case (Cons p ps)
  then obtain y ys where xs: "xs = y # ys" by (cases xs) auto
  show ?case
  proof (cases i)
    case 0
    with Cons.prems xs show ?thesis by (simp add: map_upds_Cons)
  next
    case (Suc j)
    with Cons.prems xs have "(m(p \<mapsto> y, ps [\<mapsto>] ys)) (ps ! j) = Some (ys ! j)"
      by (intro Cons.IH) simp_all
    with Suc xs show ?thesis by (simp add: map_upds_Cons)
  qed
qed

lemma eval_args_result_length:
  "eval_args n ts env st acc = Some (Inr args, st') \<Longrightarrow> length args = length acc + length ts"
  by (induction ts arbitrary: st acc) (auto split: option.splits sum.splits prod.splits)

text \<open>
  C6. A user-defined function with parameters \<open>ps\<close> is applied to the evaluated
  arguments \<open>args\<close>, one for each operand. When their number differs from the number of
  parameters, the application fails with ``incorrect number of arguments'' and the store
  is the one the evaluation of the arguments left: no environment was created and
  nothing was bound. When the numbers agree, the body is evaluated in a new environment
  whose \<^verbatim>\<open>outer\<close> is the captured environment and which binds exactly the parameters,
  each to its argument (the last occurrence of a name that is declared more than once
  wins).
\<close>

theorem closure_call_arity:
  assumes "name \<noteq> ''define''" and "name \<noteq> ''lambda''" and "name \<noteq> ''if''"
    and "Environment_find st env name = Some (Func (UserDefined ps b fenv))"
    and "eval_args (Suc n) rest env st [] = Some (Inr args, st2)"
  shows "length args = length rest
       \<and> (length args \<noteq> length ps \<longrightarrow>
            eval (Suc (Suc n)) (List (Symbol name # rest)) env st =
              Some (Inl IncorrectNumberOfArguments, st2))
       \<and> (length args = length ps \<longrightarrow>
            eval (Suc (Suc n)) (List (Symbol name # rest)) env st =
              eval (Suc n) b (length st2)
                (st2 @ [\<lparr>vars = Map.empty(ps [\<mapsto>] args), outer = Some fenv\<rparr>])
            \<and> dom (Map.empty(ps [\<mapsto>] args)) = set ps
            \<and> (\<forall>i<length ps. ps ! i \<notin> set (drop (Suc i) ps) \<longrightarrow>
                  (Map.empty(ps [\<mapsto>] args)) (ps ! i) = Some (args ! i)))"
proof (intro conjI impI allI)
  from assms(5) show "length args = length rest"
    using eval_args_result_length by fastforce
next
  assume "length args \<noteq> length ps"
  with assms(4,5) show "eval (Suc (Suc n)) (List (Symbol name # rest)) env st =
      Some (Inl IncorrectNumberOfArguments, st2)"
    by (subst eval_application[OF assms(1-3)]) simp
next
  assume same: "length args = length ps"
  with assms(4,5) show "eval (Suc (Suc n)) (List (Symbol name # rest)) env st =
      eval (Suc n) b (length st2) (st2 @ [\<lparr>vars = Map.empty(ps [\<mapsto>] args), outer = Some fenv\<rparr>])"
    by (subst eval_application[OF assms(1-3)]) (simp add: bind_params_new_frame)
  from same show "dom (Map.empty(ps [\<mapsto>] args)) = set ps"
    by simp
  fix i
  assume "i < length ps" and "ps ! i \<notin> set (drop (Suc i) ps)"
  with same show "(Map.empty(ps [\<mapsto>] args)) (ps ! i) = Some (args ! i)"
    by (intro map_upds_last_occurrence) simp_all
qed


theorem closure_call_arity_witness:
  "(let f = UserDefined [''a'', ''b''] (List [Symbol ''-'', Symbol ''a'', Symbol ''b'']) globalEnv;
        st = Environment_set initial_store globalEnv ''f'' (Func f)
    in ''f'' \<noteq> ''define'' \<and> ''f'' \<noteq> ''lambda'' \<and> ''f'' \<noteq> ''if''
       \<and> Environment_find st globalEnv ''f'' = Some (Func f)
       \<and> eval_args 2 [Number 1] globalEnv st [] = Some (Inr [Number 1], st)
       \<and> eval 3 (List [Symbol ''f'', Number 1]) globalEnv st =
           Some (Inl IncorrectNumberOfArguments, st)
       \<and> eval_args 2 [Number 5, Number 3] globalEnv st [] = Some (Inr [Number 5, Number 3], st)
       \<and> eval 3 (List [Symbol ''f'', Number 5, Number 3]) globalEnv st =
           eval 2 (List [Symbol ''-'', Symbol ''a'', Symbol ''b'']) (length st)
             (st @ [\<lparr>vars = [''a'' \<mapsto> Number 5, ''b'' \<mapsto> Number 3], outer = Some globalEnv\<rparr>])
       \<and> eval 3 (List [Symbol ''f'', Number 5, Number 3]) globalEnv st =
           Some (Inr (Number 2),
             st @ [\<lparr>vars = [''a'' \<mapsto> Number 5, ''b'' \<mapsto> Number 3], outer = Some globalEnv\<rparr>]))
   \<and> map_option fst
        (main_loop 3 [''(define f (lambda (a b) (- a b)))'', ''(f 1)'', ''(f 5 3)'', ''(f 5 3 1)'']
           initial_store) =
       Some [Inr (Func (UserDefined [''a'', ''b''] (List [Symbol ''-'', Symbol ''a'', Symbol ''b''])
                    globalEnv)),
             Inl IncorrectNumberOfArguments, Inr (Number 2), Inl IncorrectNumberOfArguments]"
proof -
  define f where "f = UserDefined [''a'', ''b''] (List [Symbol ''-'', Symbol ''a'', Symbol ''b''])
    globalEnv"
  define st where "st = Environment_set initial_store globalEnv ''f'' (Func f)"
  have names: "''f'' \<noteq> ''define''" "''f'' \<noteq> ''lambda''" "''f'' \<noteq> ''if''"
    by simp_all
  have bound: "Environment_find st globalEnv ''f'' = Some (Func (UserDefined [''a'', ''b'']
      (List [Symbol ''-'', Symbol ''a'', Symbol ''b'']) globalEnv))"
    by (simp add: st_def f_def line_defs)
  have one: "eval_args (Suc (Suc 0)) [Number 1] globalEnv st [] = Some (Inr [Number 1], st)"
    by simp
  have two: "eval_args (Suc (Suc 0)) [Number 5, Number 3] globalEnv st [] =
      Some (Inr [Number 5, Number 3], st)"
    by simp
  have body: "eval 2 (List [Symbol ''-'', Symbol ''a'', Symbol ''b'']) (length st)
      (st @ [\<lparr>vars = [''a'' \<mapsto> Number 5, ''b'' \<mapsto> Number 3], outer = Some globalEnv\<rparr>]) =
    Some (Inr (Number 2),
      st @ [\<lparr>vars = [''a'' \<mapsto> Number 5, ''b'' \<mapsto> Number 3], outer = Some globalEnv\<rparr>])"
    by (simp add: st_def f_def line_defs)
  have lines: "map_option fst
        (main_loop 3 [''(define f (lambda (a b) (- a b)))'', ''(f 1)'', ''(f 5 3)'', ''(f 5 3 1)'']
           initial_store) =
       Some [Inr (Func (UserDefined [''a'', ''b''] (List [Symbol ''-'', Symbol ''a'', Symbol ''b''])
                    globalEnv)),
             Inl IncorrectNumberOfArguments, Inr (Number 2), Inl IncorrectNumberOfArguments]"
    by (simp add: line_defs)
  have few: "eval 3 (List [Symbol ''f'', Number 1]) globalEnv st =
      Some (Inl IncorrectNumberOfArguments, st)"
    using closure_call_arity [OF names bound one] by (simp add: eval_nat_numeral)
  have call: "eval 3 (List [Symbol ''f'', Number 5, Number 3]) globalEnv st =
      eval 2 (List [Symbol ''-'', Symbol ''a'', Symbol ''b'']) (length st)
        (st @ [\<lparr>vars = [''a'' \<mapsto> Number 5, ''b'' \<mapsto> Number 3], outer = Some globalEnv\<rparr>])"
    using closure_call_arity [OF names bound two] by (simp add: eval_nat_numeral)
  show ?thesis
    unfolding Let_def f_def [symmetric] st_def [symmetric]
    using names bound one two body lines few call
    by (simp add: f_def eval_nat_numeral)
qed

section \<open>Lexical scoping\<close>

lemma eval_lambda:
  "collect_params ps [] = Inr names \<Longrightarrow>
     eval (Suc n) (List [Symbol ''lambda'', List ps, b]) env st =
       Some (Inr (Func (UserDefined names b env)), st)"
  by simp

lemma Environment_find_new_frame:
  assumes "fenv < length st"
  shows "Environment_find (st @ [\<lparr>vars = m, outer = Some fenv\<rparr>]) (length st) x =
           (case m x of Some v \<Rightarrow> Some v | None \<Rightarrow> Environment_find st fenv x)"
proof -
  have "same_below (Suc fenv) st (st @ [\<lparr>vars = m, outer = Some fenv\<rparr>])"
    using assms by (simp add: same_below_def nth_append)
  with assms
  have "Environment_find (st @ [\<lparr>vars = m, outer = Some fenv\<rparr>]) fenv x = Environment_find st fenv x"
    by (intro Environment_find_same) simp_all
  with assms show ?thesis
    by (subst Environment_find.simps) (simp split: option.splits)
qed

text \<open>
  C5. A \<^verbatim>\<open>lambda\<close> form evaluates to a function that holds the environment it was
  evaluated in. When that function is called, from whatever environment \<open>env\<close>, its body
  is evaluated in a new environment whose \<^verbatim>\<open>outer\<close> is the captured environment
  \<open>fenv\<close>: there a parameter yields its argument, and every other name yields what a
  lookup from \<open>fenv\<close> yields; the caller's environment takes no part. The three lines
  that define \<open>make-adder\<close> and \<open>add5\<close> and evaluate \<open>(add5 3)\<close> end in 8.
\<close>

theorem closures_are_lexically_scoped:
  "(\<forall>names. collect_params ps0 [] = Inr names \<longrightarrow>
      eval (Suc n) (List [Symbol ''lambda'', List ps0, b0]) env st =
        Some (Inr (Func (UserDefined names b0 env)), st))
   \<and> (name \<noteq> ''define'' \<and> name \<noteq> ''lambda'' \<and> name \<noteq> ''if''
        \<and> Environment_find st env name = Some (Func (UserDefined ps b fenv))
        \<and> eval_args (Suc n) rest env st [] = Some (Inr args, st2)
        \<and> length args = length ps \<and> fenv < length st2 \<longrightarrow>
      eval (Suc (Suc n)) (List (Symbol name # rest)) env st =
        eval (Suc n) b (length st2)
          (st2 @ [\<lparr>vars = Map.empty(ps [\<mapsto>] args), outer = Some fenv\<rparr>])
      \<and> outer ((st2 @ [\<lparr>vars = Map.empty(ps [\<mapsto>] args), outer = Some fenv\<rparr>]) ! length st2) =
          Some fenv
      \<and> (\<forall>x. x \<notin> set ps \<longrightarrow>
            Environment_find (st2 @ [\<lparr>vars = Map.empty(ps [\<mapsto>] args), outer = Some fenv\<rparr>])
              (length st2) x = Environment_find st2 fenv x)
      \<and> (\<forall>x. x \<in> set ps \<longrightarrow>
            Environment_find (st2 @ [\<lparr>vars = Map.empty(ps [\<mapsto>] args), outer = Some fenv\<rparr>])
              (length st2) x = (Map.empty(ps [\<mapsto>] args)) x))
   \<and> (4 \<le> k \<longrightarrow>
        map_option fst
          (main_loop k
             [''(define make-adder (lambda (x) (lambda (y) (+ x y))))'',
              ''(define add5 (make-adder 5))'',
              ''(add5 3)''] initial_store) =
         Some [Inr (Func (UserDefined [''x'']
                      (List [Symbol ''lambda'', List [Symbol ''y''],
                             List [Symbol ''+'', Symbol ''x'', Symbol ''y'']]) globalEnv)),
               Inr (Func (UserDefined [''y''] (List [Symbol ''+'', Symbol ''x'', Symbol ''y'']) 1)),
               Inr (Number 8)])"
proof (intro conjI allI impI)
  fix names
  assume "collect_params ps0 [] = Inr names"
  then show "eval (Suc n) (List [Symbol ''lambda'', List ps0, b0]) env st =
      Some (Inr (Func (UserDefined names b0 env)), st)"
    by (rule eval_lambda)
next
  let ?st3 = "st2 @ [\<lparr>vars = Map.empty(ps [\<mapsto>] args), outer = Some fenv\<rparr>]"
  assume call: "name \<noteq> ''define'' \<and> name \<noteq> ''lambda'' \<and> name \<noteq> ''if''
        \<and> Environment_find st env name = Some (Func (UserDefined ps b fenv))
        \<and> eval_args (Suc n) rest env st [] = Some (Inr args, st2)
        \<and> length args = length ps \<and> fenv < length st2"
  then show "eval (Suc (Suc n)) (List (Symbol name # rest)) env st =
      eval (Suc n) b (length st2) ?st3"
    by (subst eval_application) (simp_all add: bind_params_new_frame)
  show "outer (?st3 ! length st2) = Some fenv"
    by simp
  {
    fix x
    assume "x \<notin> set ps"
    with call show "Environment_find ?st3 (length st2) x = Environment_find st2 fenv x"
      by (simp add: Environment_find_new_frame)
  }
  {
    fix x
    assume "x \<in> set ps"
    with call have "x \<in> dom (Map.empty(ps [\<mapsto>] args))"
      by simp
    with call show "Environment_find ?st3 (length st2) x = (Map.empty(ps [\<mapsto>] args)) x"
      by (auto simp: Environment_find_new_frame simp del: dom_map_upds)
  }
next
  let ?lines = "[''(define make-adder (lambda (x) (lambda (y) (+ x y))))'',
                 ''(define add5 (make-adder 5))'',
                 ''(add5 3)'']"
  let ?results = "[Inr (Func (UserDefined [''x'']
                      (List [Symbol ''lambda'', List [Symbol ''y''],
                             List [Symbol ''+'', Symbol ''x'', Symbol ''y'']]) globalEnv)),
                   Inr (Func (UserDefined [''y'']
                      (List [Symbol ''+'', Symbol ''x'', Symbol ''y'']) 1)),
                   Inr (Number 8)]"
  assume enough: "4 \<le> k"
  have "\<exists>st'. main_loop 4 ?lines initial_store = Some (?results, st')"
    by (simp add: line_defs)
  then obtain st' where "main_loop 4 ?lines initial_store = Some (?results, st')" ..
  from main_loop_fuel_mono[OF this enough]
  show "map_option fst (main_loop k ?lines initial_store) = Some ?results"
    by simp
qed


theorem closures_are_lexically_scoped_witness:
  "collect_params [] [] = Inr []
   \<and> eval 1 (List [Symbol ''lambda'', List [], Symbol ''x'']) globalEnv initial_store =
       Some (Inr (Func (UserDefined [] (Symbol ''x'') globalEnv)), initial_store)
   \<and> (let f = Func (UserDefined [] (Symbol ''x'') globalEnv);
           g = Func (UserDefined [''x''] (List [Symbol ''f'']) globalEnv);
           st = Environment_set
                  (Environment_set (Environment_set initial_store globalEnv ''x'' (Number 1))
                     globalEnv ''f'' f)
                  globalEnv ''g'' g
                @ [\<lparr>vars = [''x'' \<mapsto> Number 99], outer = Some globalEnv\<rparr>]
       in ''f'' \<noteq> ''define'' \<and> ''f'' \<noteq> ''lambda'' \<and> ''f'' \<noteq> ''if''
          \<and> Environment_find st 1 ''f'' = Some f
          \<and> eval_args 1 [] 1 st [] = Some (Inr [], st)
          \<and> globalEnv < length st
          \<and> Environment_find st 1 ''x'' = Some (Number 99)
          \<and> Environment_find st globalEnv ''x'' = Some (Number 1)
          \<and> ''x'' \<notin> set []
          \<and> Environment_find (st @ [\<lparr>vars = Map.empty, outer = Some globalEnv\<rparr>]) (length st) ''x''
              = Some (Number 1)
          \<and> eval 2 (List [Symbol ''f'']) 1 st =
              Some (Inr (Number 1), st @ [\<lparr>vars = Map.empty, outer = Some globalEnv\<rparr>]))
   \<and> map_option fst
        (main_loop 4
           [''(define x 1)'', ''(define f (lambda () x))'', ''(define g (lambda (x) (f)))'',
            ''(g 99)''] initial_store) =
       Some [Inr (Number 1),
             Inr (Func (UserDefined [] (Symbol ''x'') globalEnv)),
             Inr (Func (UserDefined [''x''] (List [Symbol ''f'']) globalEnv)),
             Inr (Number 1)]
   \<and> (4::nat) \<le> 4
   \<and> map_option fst
        (main_loop 4
           [''(define make-adder (lambda (x) (lambda (y) (+ x y))))'',
            ''(define add5 (make-adder 5))'',
            ''(add5 3)''] initial_store) =
       Some [Inr (Func (UserDefined [''x'']
                    (List [Symbol ''lambda'', List [Symbol ''y''],
                           List [Symbol ''+'', Symbol ''x'', Symbol ''y'']]) globalEnv)),
             Inr (Func (UserDefined [''y''] (List [Symbol ''+'', Symbol ''x'', Symbol ''y'']) 1)),
             Inr (Number 8)]"
proof -
  define st where "st =
    Environment_set
      (Environment_set (Environment_set initial_store globalEnv ''x'' (Number 1))
         globalEnv ''f'' (Func (UserDefined [] (Symbol ''x'') globalEnv)))
      globalEnv ''g'' (Func (UserDefined [''x''] (List [Symbol ''f'']) globalEnv))
    @ [\<lparr>vars = [''x'' \<mapsto> Number 99], outer = Some globalEnv\<rparr>]"
  have params: "collect_params [] [] = Inr []"
    by simp
  have names: "''f'' \<noteq> ''define'' \<and> ''f'' \<noteq> ''lambda'' \<and> ''f'' \<noteq> ''if''"
    by simp
  have bound: "Environment_find st 1 ''f'' = Some (Func (UserDefined [] (Symbol ''x'') globalEnv))"
    "Environment_find st 1 ''x'' = Some (Number 99)"
    "Environment_find st globalEnv ''x'' = Some (Number 1)"
    by (simp_all add: st_def line_defs)
  have args: "eval_args (Suc 0) [] 1 st [] = Some (Inr [], st)"
    by simp
  have captured: "globalEnv < length st"
    by (simp add: st_def line_defs)
  have lines: "map_option fst
        (main_loop 4
           [''(define x 1)'', ''(define f (lambda () x))'', ''(define g (lambda (x) (f)))'',
            ''(g 99)''] initial_store) =
       Some [Inr (Number 1),
             Inr (Func (UserDefined [] (Symbol ''x'') globalEnv)),
             Inr (Func (UserDefined [''x''] (List [Symbol ''f'']) globalEnv)),
             Inr (Number 1)]"
    by (simp add: line_defs)
  note capturing = closures_are_lexically_scoped
    [where ?ps0.0 = "[]" and n = 0 and ?b0.0 = "Symbol ''x''" and env = globalEnv
       and st = initial_store and k = 4]
  note calling = closures_are_lexically_scoped
    [where n = 0 and env = 1 and st = st and name = "''f''" and ps = "[]"
       and b = "Symbol ''x''" and fenv = globalEnv and rest = "[]" and args = "[]" and ?st2.0 = st]
  from capturing params
  have capture: "eval 1 (List [Symbol ''lambda'', List [], Symbol ''x'']) globalEnv initial_store =
       Some (Inr (Func (UserDefined [] (Symbol ''x'') globalEnv)), initial_store)"
    by simp
  from capturing
  have adder: "map_option fst
        (main_loop 4
           [''(define make-adder (lambda (x) (lambda (y) (+ x y))))'',
            ''(define add5 (make-adder 5))'',
            ''(add5 3)''] initial_store) =
       Some [Inr (Func (UserDefined [''x'']
                    (List [Symbol ''lambda'', List [Symbol ''y''],
                           List [Symbol ''+'', Symbol ''x'', Symbol ''y'']]) globalEnv)),
             Inr (Func (UserDefined [''y''] (List [Symbol ''+'', Symbol ''x'', Symbol ''y'']) 1)),
             Inr (Number 8)]"
    by simp
  from calling names bound(1) args captured
  have call: "eval (Suc (Suc 0)) (List [Symbol ''f'']) 1 st =
      eval (Suc 0) (Symbol ''x'') (length st) (st @ [\<lparr>vars = Map.empty, outer = Some globalEnv\<rparr>])"
    and resolve: "Environment_find (st @ [\<lparr>vars = Map.empty, outer = Some globalEnv\<rparr>])
      (length st) ''x'' = Environment_find st globalEnv ''x''"
    by simp_all
  from call resolve bound(3)
  have result: "eval 2 (List [Symbol ''f'']) 1 st =
      Some (Inr (Number 1), st @ [\<lparr>vars = Map.empty, outer = Some globalEnv\<rparr>])"
    by (simp add: eval_nat_numeral)
  show ?thesis
    unfolding Let_def st_def [symmetric]
    using params names bound args captured lines capture resolve result adder
    by simp
qed

section \<open>The stores the program builds\<close>

text \<open>
  Every store that the read-eval loop reaches from the initial store satisfies
  \<open>store_ok\<close>, whatever the lines are and whether they end in values or in errors. In
  such a store the two guards of \<open>Environment_find\<close> never fire: a lookup is the plain
  walk along \<^verbatim>\<open>outer\<close> of the source.
\<close>

lemma store_ok_outer: "store_ok st \<Longrightarrow> a < length st \<Longrightarrow> outer (st ! a) = Some a' \<Longrightarrow> a' < a"
  by (simp add: store_ok_def)

lemma store_ok_vars:
  "store_ok st \<Longrightarrow> a < length st \<Longrightarrow> vars (st ! a) x = Some v \<Longrightarrow> closures_below (length st) v"
  unfolding store_ok_def by blast

lemma closures_below_mono:
  "closures_below L e \<Longrightarrow> L \<le> L' \<Longrightarrow> closures_below L' e"
  "function_below L f \<Longrightarrow> L \<le> L' \<Longrightarrow> function_below L' f"
  by (induction L e and L f rule: closures_below_function_below.induct)
    (auto simp: list_all_iff)

lemma store_ok_find:
  "store_ok st \<Longrightarrow> Environment_find st a x = Some v \<Longrightarrow> closures_below (length st) v"
proof (induction st a x rule: Environment_find.induct)
  case (1 st a var)
  from "1.prems"(2) have in_range: "a < length st"
    by (subst (asm) Environment_find.simps) (simp split: if_splits)
  show ?case
  proof (cases "vars (st ! a) var")
    case (Some w)
    with "1.prems"(2) in_range have "w = v"
      by (subst (asm) Environment_find.simps) simp
    with Some "1.prems"(1) in_range show ?thesis
      using store_ok_vars by blast
  next
    case None
    with "1.prems"(2) in_range obtain a' where out: "outer (st ! a) = Some a'" and "\<not> a \<le> a'"
      and "Environment_find st a' var = Some v"
      by (subst (asm) Environment_find.simps) (auto split: option.splits if_splits)
    with "1.IH" None in_range "1.prems"(1) show ?thesis
      by simp
  qed
qed

lemma store_ok_unguarded:
  assumes "store_ok st" and "a < length st"
  shows "Environment_find st a x =
           (case vars (st ! a) x of
              Some result \<Rightarrow> Some result
            | None \<Rightarrow>
                (case outer (st ! a) of
                   None \<Rightarrow> None
                 | Some a' \<Rightarrow> Environment_find st a' x))"
  using assms store_ok_outer[OF assms]
  by (subst Environment_find.simps) (auto split: option.splits)

lemma store_ok_set:
  assumes "store_ok st" and "closures_below (length st) v"
  shows "store_ok (Environment_set st a x v)"
proof -
  have "(\<forall>a'. outer (Environment_set st a x v ! i) = Some a' \<longrightarrow> a' < i)
      \<and> (\<forall>y w. vars (Environment_set st a x v ! i) y = Some w \<longrightarrow> closures_below (length st) w)"
    if "i < length st" for i
    using that assms store_ok_outer[OF assms(1) that] store_ok_vars[OF assms(1) that]
    by (cases "i = a") (auto simp: Environment_set_def)
  then show ?thesis
    by (simp add: store_ok_def length_Environment_set)
qed

lemma map_upds_SomeD:
  "(m(ps [\<mapsto>] xs)) y = Some w \<Longrightarrow> m y = Some w \<or> w \<in> set xs"
proof (induction ps arbitrary: m xs)
  case Nil
  then show ?case by simp
next
  case (Cons p ps)
  show ?case
  proof (cases xs)
    case Nil
    with Cons.prems show ?thesis by simp
  next
    case (Cons z zs)
    with Cons.prems have "(m(p \<mapsto> z, ps [\<mapsto>] zs)) y = Some w"
      by (simp add: map_upds_Cons)
    from Cons.IH[OF this] Cons show ?thesis
      by (auto split: if_splits)
  qed
qed

lemma store_ok_new_frame:
  assumes "store_ok st" and "fenv < length st" and "list_all (closures_below (length st)) args"
  shows "store_ok (st @ [\<lparr>vars = Map.empty(ps [\<mapsto>] args), outer = Some fenv\<rparr>])"
proof -
  let ?st' = "st @ [\<lparr>vars = Map.empty(ps [\<mapsto>] args), outer = Some fenv\<rparr>]"
  have old: "(\<forall>a'. outer (?st' ! i) = Some a' \<longrightarrow> a' < i)
      \<and> (\<forall>y w. vars (?st' ! i) y = Some w \<longrightarrow> closures_below (length ?st') w)"
    if "i < length st" for i
    using that store_ok_outer[OF assms(1) that] store_ok_vars[OF assms(1) that]
      closures_below_mono(1)[of "length st" _ "Suc (length st)"]
    by (auto simp: nth_append)
  have "closures_below (length ?st') w" if "(Map.empty(ps [\<mapsto>] args)) y = Some w" for y w
  proof -
    from that have "w \<in> set args"
      using map_upds_SomeD by fastforce
    with assms(3) show ?thesis
      by (auto simp: list_all_iff intro: closures_below_mono(1))
  qed
  with assms(2) have new: "(\<forall>a'. outer (?st' ! length st) = Some a' \<longrightarrow> a' < length st)
      \<and> (\<forall>y w. vars (?st' ! length st) y = Some w \<longrightarrow> closures_below (length ?st') w)"
    by simp
  show ?thesis
    unfolding store_ok_def
  proof (intro allI impI)
    fix a
    assume "a < length ?st'"
    then consider "a < length st" | "a = length st" by fastforce
    then show "(\<forall>a'. outer (?st' ! a) = Some a' \<longrightarrow> a' < a)
        \<and> (\<forall>y w. vars (?st' ! a) y = Some w \<longrightarrow> closures_below (length ?st') w)"
      using old new by cases blast+
  qed
qed


lemma eval_args_store_ok_step:
  assumes IH: "\<And>t env st r st'. eval n t env st = Some (r, st') \<Longrightarrow> store_ok st \<Longrightarrow>
      closures_below (length st) t \<Longrightarrow> env < length st \<Longrightarrow>
      store_ok st' \<and> (\<forall>v. r = Inr v \<longrightarrow> closures_below (length st') v)"
  shows "eval_args n ts env st acc = Some (r, st') \<Longrightarrow> store_ok st \<Longrightarrow>
      list_all (closures_below (length st)) ts \<Longrightarrow>
      list_all (closures_below (length st)) acc \<Longrightarrow> env < length st \<Longrightarrow>
      store_ok st' \<and> (\<forall>vs. r = Inr vs \<longrightarrow> list_all (closures_below (length st')) vs)"
proof (induction ts arbitrary: st acc)
  case Nil
  then show ?case by auto
next
  case (Cons t ts)
  from Cons.prems(1) obtain v st1 where first: "eval n t env st = Some (v, st1)"
    by (auto split: option.splits)
  from Cons.prems(3) have t: "closures_below (length st) t"
    and ts: "list_all (closures_below (length st)) ts" by simp_all
  from IH[OF first Cons.prems(2) t Cons.prems(5)]
  have ok1: "store_ok st1" and val: "\<forall>x. v = Inr x \<longrightarrow> closures_below (length st1) x"
    by simp_all
  from eval_length[OF first] have len: "length st \<le> length st1" .
  show ?case
  proof (cases v)
    case (Inl e)
    with Cons.prems(1) first ok1 show ?thesis by auto
  next
    case (Inr x)
    with Cons.prems(1) first have rest: "eval_args n ts env st1 (acc @ [x]) = Some (r, st')"
      by simp
    from ts len have ts1: "list_all (closures_below (length st1)) ts"
      by (auto simp: list_all_iff intro: closures_below_mono(1))
    from Cons.prems(4) len val Inr have acc1: "list_all (closures_below (length st1)) (acc @ [x])"
      by (auto simp: list_all_iff intro: closures_below_mono(1))
    from Cons.prems(5) len have "env < length st1" by simp
    from Cons.IH[OF rest ok1 ts1 acc1 this] show ?thesis .
  qed
qed

lemma eval_store_ok_step:
  assumes IH: "\<And>t env st r st'. eval n t env st = Some (r, st') \<Longrightarrow> store_ok st \<Longrightarrow>
      closures_below (length st) t \<Longrightarrow> env < length st \<Longrightarrow>
      store_ok st' \<and> (\<forall>v. r = Inr v \<longrightarrow> closures_below (length st') v)"
    and ev: "eval (Suc n) t env st = Some (r, st')"
    and ok: "store_ok st"
    and below: "closures_below (length st) t"
    and env: "env < length st"
  shows "store_ok st' \<and> (\<forall>v. r = Inr v \<longrightarrow> closures_below (length st') v)"
proof (cases t)
  case (Symbol s)
  with ev ok show ?thesis
    by (auto split: option.splits dest: store_ok_find)
next
  case (Number d)
  with ev ok show ?thesis by auto
next
  case (Func f)
  with ev ok show ?thesis by auto
next
  case (List list)
  have IHa: "store_ok st0' \<and> (\<forall>vs. r0 = Inr vs \<longrightarrow> list_all (closures_below (length st0')) vs)"
    if "eval_args n ts env0 st0 acc = Some (r0, st0')" and "store_ok st0"
      and "list_all (closures_below (length st0)) ts"
      and "list_all (closures_below (length st0)) acc" and "env0 < length st0"
    for ts env0 st0 acc r0 st0'
    using that by (rule eval_args_store_ok_step[rotated]) (rule IH)
  from below List have elems: "list_all (closures_below (length st)) list" by simp
  show ?thesis
  proof (cases list)
    case Nil
    with ev ok List show ?thesis by auto
  next
    case (Cons first rest)
    show ?thesis
    proof (cases first)
      case (Symbol name)
      consider "name = ''define''" | "name = ''lambda''" | "name = ''if''"
        | "name \<noteq> ''define''" "name \<noteq> ''lambda''" "name \<noteq> ''if''" by blast
      then show ?thesis
      proof cases
        case 1
        from ev List Cons Symbol 1
        consider (err) e where "r = Inl e" "st' = st"
          | (sub_err) e where "length list = 3" "eval n (list ! 2) env st = Some (Inl e, st')"
              "r = Inl e"
          | (bind) var v st1 where "length list = 3" "eval n (list ! 2) env st = Some (Inr v, st1)"
              "r = Inr v" "st' = Environment_set st1 env var v"
          by (auto simp: Let_def split: if_splits option.splits sum.splits prod.splits)
        then show ?thesis
        proof cases
          case err
          with ok show ?thesis by simp
        next
          case sub_err
          from sub_err(1) elems have "closures_below (length st) (list ! 2)"
            by (simp add: list_all_length)
          from IH[OF sub_err(2) ok this env] sub_err(3) show ?thesis by simp
        next
          case bind
          from bind(1) elems have "closures_below (length st) (list ! 2)"
            by (simp add: list_all_length)
          from IH[OF bind(2) ok this env]
          have "store_ok st1" and "closures_below (length st1) v" by simp_all
          with bind(3,4) show ?thesis
            by (simp add: store_ok_set length_Environment_set)
        qed
      next
        case 2
        from ev List Cons Symbol 2
        consider (err) e where "r = Inl e" "st' = st"
          | (closure) names where "length list = 3" "st' = st"
              "r = Inr (Func (UserDefined names (list ! 2) env))"
          by (auto simp: Let_def split: if_splits option.splits sum.splits prod.splits)
        then show ?thesis
        proof cases
          case err
          with ok show ?thesis by simp
        next
          case closure
          from closure(1) elems have "closures_below (length st) (list ! 2)"
            by (simp add: list_all_length)
          with closure ok env show ?thesis by simp
        qed
      next
        case 3
        from ev List Cons Symbol 3
        consider (err) e where "r = Inl e" "st' = st"
          | (cond) c st1 where "length list = 4" "eval n (list ! 1) env st = Some (c, st1)"
              "(\<exists>e. r = Inl e \<and> st' = st1) \<or> eval n (list ! 2) env st1 = Some (r, st')
                 \<or> eval n (list ! 3) env st1 = Some (r, st')"
          by (auto simp: Let_def split: if_splits option.splits sum.splits prod.splits)
        then show ?thesis
        proof cases
          case err
          with ok show ?thesis by simp
        next
          case cond
          from cond(1) elems have subs: "closures_below (length st) (list ! 1)"
            "closures_below (length st) (list ! 2)" "closures_below (length st) (list ! 3)"
            by (simp_all add: list_all_length)
          from IH[OF cond(2) ok subs(1) env] have ok1: "store_ok st1" by simp
          from eval_length[OF cond(2)] have len: "length st \<le> length st1" .
          with env have env1: "env < length st1" by simp
          from subs len have subs1: "closures_below (length st1) (list ! 2)"
            "closures_below (length st1) (list ! 3)"
            by (auto intro: closures_below_mono(1))
          from cond(3) show ?thesis
          proof (elim disjE exE conjE)
            fix e
            assume "r = Inl e" "st' = st1"
            with ok1 show ?thesis by simp
          next
            assume "eval n (list ! 2) env st1 = Some (r, st')"
            from IH[OF this ok1 subs1(1) env1] show ?thesis .
          next
            assume "eval n (list ! 3) env st1 = Some (r, st')"
            from IH[OF this ok1 subs1(2) env1] show ?thesis .
          qed
        qed
      next
        case 4
        from ev List Cons Symbol have ev':
          "eval (Suc n) (List (Symbol name # rest)) env st = Some (r, st')" by simp
        from elems Cons have rest_ok: "list_all (closures_below (length st)) rest" by simp
        from ev' obtain f st1 where head: "eval n (Symbol name) env st = Some (f, st1)"
          unfolding eval_application[OF 4] by (cases "eval n (Symbol name) env st") auto
        from IH[OF head ok _ env]
        have ok1: "store_ok st1" and f_ok: "\<forall>v. f = Inr v \<longrightarrow> closures_below (length st1) v"
          by simp_all
        from eval_length[OF head] have len1: "length st \<le> length st1" .
        with env have env1: "env < length st1" by simp
        from rest_ok len1 have rest1: "list_all (closures_below (length st1)) rest"
          by (auto simp: list_all_iff intro: closures_below_mono(1))
        from ev' head
        consider (err) e where "r = Inl e" "st' = st1"
          | (args_err) fn e where "f = Inr (Func fn)"
              "eval_args n rest env st1 [] = Some (Inl e, st')" "r = Inl e"
          | (builtin) bf args where "f = Inr (Func (Builtin bf))"
              "eval_args n rest env st1 [] = Some (Inr args, st')" "r = call_builtin bf args"
          | (arity) fn args where "f = Inr (Func fn)"
              "eval_args n rest env st1 [] = Some (Inr args, st')" "r = Inl IncorrectNumberOfArguments"
          | (call) ps b fenv args st2 where "f = Inr (Func (UserDefined ps b fenv))"
              "eval_args n rest env st1 [] = Some (Inr args, st2)" "length args = length ps"
              "eval n b (length st2)
                 (st2 @ [\<lparr>vars = Map.empty(ps [\<mapsto>] args), outer = Some fenv\<rparr>]) = Some (r, st')"
          unfolding eval_application[OF 4]
          by (auto simp del: eval.simps simp: bind_params_new_frame
              split: option.splits sum.splits prod.splits Expression.splits Function.splits
                if_splits)
        then show ?thesis
        proof cases
          case err
          with ok1 show ?thesis by simp
        next
          case args_err
          from IHa[OF args_err(2) ok1 rest1 _ env1] args_err(3) show ?thesis by simp
        next
          case builtin
          from IHa[OF builtin(2) ok1 rest1 _ env1] have "store_ok st'" by simp
          moreover have "closures_below L v" if "call_builtin bf args = Inr v" for L v
          proof -
            have plus: "plus_loop xs a = Inr v \<Longrightarrow> closures_below L v" for xs a
              by (induction xs arbitrary: a) (auto split: if_splits)
            have minus: "minus_loop xs a = Inr v \<Longrightarrow> closures_below L v" for xs a
              by (induction xs arbitrary: a) (auto split: if_splits)
            from that plus minus show ?thesis
              by (cases bf) (auto simp: builtin_plus_def builtin_minus_def Let_def split: if_splits)
          qed
          ultimately show ?thesis using builtin(3) by simp
        next
          case arity
          from IHa[OF arity(2) ok1 rest1 _ env1] arity(3) show ?thesis by simp
        next
          case call
          from IHa[OF call(2) ok1 rest1 _ env1]
          have ok2: "store_ok st2" and args_ok: "list_all (closures_below (length st2)) args"
            by simp_all
          from eval_args_length[OF call(2)] have len2: "length st1 \<le> length st2" .
          from f_ok call(1) have "fenv < length st1" and "closures_below (length st1) b"
            by simp_all
          with len2 have fenv: "fenv < length st2" and b: "closures_below (Suc (length st2)) b"
            by (auto intro: closures_below_mono(1))
          let ?st3 = "st2 @ [\<lparr>vars = Map.empty(ps [\<mapsto>] args), outer = Some fenv\<rparr>]"
          have ok3: "store_ok ?st3"
            using ok2 fenv args_ok by (rule store_ok_new_frame)
          from IH[OF call(4) ok3] b show ?thesis by simp
        qed
      qed
    qed (use ev ok List Cons in auto)
  qed
qed

lemma eval_store_ok:
  "eval n t env st = Some (r, st') \<Longrightarrow> store_ok st \<Longrightarrow> closures_below (length st) t \<Longrightarrow>
     env < length st \<Longrightarrow>
     store_ok st' \<and> (\<forall>v. r = Inr v \<longrightarrow> closures_below (length st') v)"
proof (induction n arbitrary: t env st r st')
  case 0
  then show ?case by simp
next
  case (Suc n)
  show ?case by (rule eval_store_ok_step[OF Suc.IH Suc.prems])
qed


lemma parse_closures_below:
  "parseExpression tokens pos = Inr (x, pos') \<Longrightarrow> closures_below L x"
  "parseList_loop tokens pos list = Inr (x, pos') \<Longrightarrow> list_all (closures_below L) list \<Longrightarrow>
     closures_below L x"
proof (induction tokens pos and tokens pos list arbitrary: x pos' and x pos'
    rule: parseExpression_parseList_loop.induct)
  case (1 tokens pos)
  show ?case
  proof (cases "type (tokens ! pos) = PAREN_OPEN")
    case True
    with "1.prems" have in_range: "\<not> length tokens \<le> pos"
      and loop: "parseList_loop tokens (pos + 1) [] = Inr (x, pos')"
      by (simp_all add: parseExpression.simps Let_def split: if_splits)
    from "1.IH"[OF in_range refl _ _ True loop] True show ?thesis by simp
  next
    case False
    with "1.prems" show ?thesis
      by (auto simp: parseExpression.simps [of tokens pos] Let_def split: if_splits sum.splits)
  qed
next
  case (2 tokens pos list)
  show ?case
  proof (cases "pos < length tokens \<and> type (tokens ! pos) \<noteq> PAREN_CLOSE")
    case True
    with "2.prems"(1) obtain y p where
      first: "parseExpression tokens pos = Inr (y, p)" and
      rest: "parseList_loop tokens p (list @ [y]) = Inr (x, pos')"
      by (subst (asm) parseList_loop.simps) (auto split: sum.splits)
    from "2.IH"(1)[OF True first] have "closures_below L y" .
    with "2.prems"(2) have "list_all (closures_below L) (list @ [y])" by simp
    from "2.IH"(2)[OF True first refl rest this] show ?thesis .
  next
    case False
    with "2.prems" show ?thesis
      by (subst (asm) parseList_loop.simps) (auto split: if_splits)
  qed
qed

lemma initial_store_ok: "store_ok initial_store"
  by (auto simp: store_ok_def initial_store_def addBuiltins_def Environment_set_def globalEnv_def
      split: if_splits)

lemma main_cycle_store_ok:
  assumes "main_cycle n line st = Some (r, st')" and "store_ok st" and "globalEnv < length st"
  shows "store_ok st' \<and> globalEnv < length st'"
proof (cases "parse line")
  case None
  with assms show ?thesis by (simp add: main_cycle_def)
next
  case (Some p)
  show ?thesis
  proof (cases p)
    case (Inl e)
    with assms Some show ?thesis by (simp add: main_cycle_def)
  next
    case (Inr x)
    with Some have "closures_below (length st) x"
      by (auto simp: parse_def split: option.splits sum.splits prod.splits
          intro: parse_closures_below(1))
    moreover from assms(1) Some Inr have run: "eval n x globalEnv st = Some (r, st')"
      by (simp add: main_cycle_def)
    ultimately have "store_ok st'"
      using eval_store_ok assms(2,3) by blast
    with eval_length[OF run] assms(3) show ?thesis by simp
  qed
qed

lemma main_loop_store_ok:
  "main_loop n lines st = Some (rs, st') \<Longrightarrow> store_ok st \<Longrightarrow> globalEnv < length st \<Longrightarrow>
     store_ok st' \<and> globalEnv < length st'"
proof (induction lines arbitrary: st rs)
  case Nil
  then show ?case by simp
next
  case (Cons line lines)
  from Cons.prems(1) obtain x st1 xs where first: "main_cycle n line st = Some (x, st1)"
    and rest: "main_loop n lines st1 = Some (xs, st')"
    by (auto split: option.splits)
  from main_cycle_store_ok[OF first Cons.prems(2,3)] Cons.IH[OF rest] show ?case
    by simp
qed

lemma reachable_store_lookup:
  assumes "main_loop n lines initial_store = Some (rs, st)" and "a < length st"
  shows "Environment_find st a x =
           (case vars (st ! a) x of
              Some result \<Rightarrow> Some result
            | None \<Rightarrow>
                (case outer (st ! a) of
                   None \<Rightarrow> None
                 | Some a' \<Rightarrow> Environment_find st a' x))"
proof -
  have "globalEnv < length initial_store"
    by (simp add: initial_store_def addBuiltins_def Environment_set_def globalEnv_def)
  with assms(1) have "store_ok st"
    using main_loop_store_ok initial_store_ok by blast
  then show ?thesis
    using assms(2) by (rule store_ok_unguarded)
qed

end
